theory Spec2Isabelle
  imports Main "HOL-Library.Word" "HOL-Library.Multiset"
begin

section \<open>Data model of the APPEND handler (\<^verbatim>\<open>onAppend\<close>)\<close>

text \<open>
  The handler is embedded as a function from the state of the storage back end and of
  the observable side channels (log, alert emails, live broadcasts, journal) to the value
  handed to the callback \<^verbatim>\<open>fn\<close> and the new state. Collaborators whose code is not
  part of the handler (MIME indexer, encryption helper, quota directory, ...) are fields
  of an environment record; database calls follow MongoDB's documented semantics.
\<close>

type_synonym object_id = nat
type_synonym timestamp = int
type_synonym blob_id = nat

text \<open>\<^verbatim>\<open>raw\<close> is a Buffer (bytes) or a string (UTF-16 code units).\<close>

datatype raw_message = RawBuffer "8 word list" | RawString "16 word list"

text \<open>\<^verbatim>\<open>bytes('64MB')\<close>: the \<^verbatim>\<open>bytes\<close> package uses binary units.\<close>

definition SIXTY_FOUR_MB_IN_BYTES :: nat where
  "SIXTY_FOUR_MB_IN_BYTES = 64 * 1024 * 1024"

text \<open>\<^verbatim>\<open>Buffer.isBuffer(raw) ? Buffer.byteLength(raw) : raw.length\<close>\<close>

fun raw_length :: "raw_message \<Rightarrow> nat" where
  "raw_length (RawBuffer bs) = length bs"
| "raw_length (RawString cs) = length cs"

text \<open>\<^verbatim>\<open>i18n.translate(key, locale, ...args)\<close>, kept symbolic.\<close>

datatype message_text = Translate string string "string list"

text \<open>
  Thrown values: an \<^verbatim>\<open>IMAPError\<close> with its message and optional
  \<^verbatim>\<open>imapResponse\<close>, or any other error.
\<close>

datatype js_error = IMAPError message_text "string option" | Error string

fun imapResponse :: "js_error \<Rightarrow> string option" where
  "imapResponse (IMAPError _ r) = r"
| "imapResponse (Error _) = None"

text \<open>JavaScript truthiness of an optional string: present and not empty.\<close>

fun truthy :: "string option \<Rightarrow> bool" where
  "truthy None = False"
| "truthy (Some s) = (s \<noteq> [])"

definition Draft :: string where "Draft = CHR 0x5C # ''Draft''"
definition Seen :: string where "Seen = CHR 0x5C # ''Seen''"
definition Flagged :: string where "Flagged = CHR 0x5C # ''Flagged''"
definition Deleted :: string where "Deleted = CHR 0x5C # ''Deleted''"
definition Drafts :: string where "Drafts = CHR 0x5C # ''Drafts''"
definition Junk :: string where "Junk = CHR 0x5C # ''Junk''"

text \<open>\<^verbatim>\<open>flags.includes(f)\<close>\<close>

definition includes_flag :: "string list \<Rightarrow> string \<Rightarrow> bool" where
  "includes_flag flags f = (f \<in> set flags)"

record user =
  alias_id :: object_id
  domain_id :: object_id
  user_locale :: string
  username :: string
  owner_full_email :: string
  alias_has_pgp :: bool
  alias_public_key :: "string option"

record session =
  session_id :: string
  user :: user
  remoteAddress :: string
  checkForExisting :: bool
  selected_mailbox :: "object_id option"

record alias_doc =
  a_id :: object_id
  a_domain :: object_id
  pgp_error_sent_at :: "timestamp option"

record mailbox =
  mb_id :: object_id
  mb_path :: string
  uidValidity :: nat
  uidNext :: nat
  modifyIndex :: nat
  specialUse :: "string option"
  retention :: "int option"

record mime_tree =
  body :: string
  attachmentMap :: "(string \<times> blob_id) list option"

record maildata =
  md_text :: "string option"
  md_magic :: nat
  md_attachments :: "string list option"

text \<open>What \<^verbatim>\<open>prepareMessage\<close> yields.\<close>

record prepared =
  p_id :: object_id
  p_mimeTree :: mime_tree
  p_size :: nat
  p_bodystructure :: string
  p_envelope :: string
  p_idate :: timestamp
  p_hdate :: timestamp
  p_msgid :: string
  p_subject :: string
  p_headers :: string

text \<open>The document handed to \<^verbatim>\<open>Messages.create\<close>.\<close>

record message =
  m_fingerprint :: string
  m_mailbox :: object_id
  m_id :: object_id
  m_root :: object_id
  m_exp :: bool
  m_rdate :: timestamp
  m_idate :: timestamp
  m_hdate :: timestamp
  m_flags :: "string list"
  m_size :: nat
  m_headers :: string
  m_mimeTree :: mime_tree
  m_envelope :: string
  m_bodystructure :: string
  m_msgid :: string
  m_unseen :: bool
  m_flagged :: bool
  m_undeleted :: bool
  m_draft :: bool
  m_magic :: nat
  m_subject :: string
  m_copied :: bool
  m_remoteAddress :: string
  m_transaction :: string
  m_text :: string
  m_attachments :: "string list option"
  m_uid :: nat
  m_modseq :: nat
  m_searchable :: bool
  m_junk :: bool
  m_thread :: object_id

record journal_entry =
  j_ignore :: bool
  j_command :: string
  j_uid :: nat
  j_mailbox :: object_id
  j_message :: object_id

record alert_email =
  e_template :: string
  e_to :: string
  e_subject :: message_text
  e_error :: js_error

datatype log_entry = Debug string | Fatal js_error

datatype call = EncryptMessage string raw_message

text \<open>
  The state: the alias directory, the owner's mailboxes, messages, threads, journal and
  reference-counted attachment blobs, the cached storage-used figure, and the side
  channels. \<open>calls\<close> records each invocation of the encryption helper.
\<close>

record world =
  aliases :: "alias_doc list"
  mailboxes :: "mailbox list"
  messages :: "message list"
  threads :: "object_id list"
  journal :: "journal_entry list"
  attachments :: "blob_id multiset"
  storage_used :: nat
  emails :: "alert_email list"
  broadcasts :: "(string \<times> string \<times> nat) list"
  fired :: "object_id list"
  apns :: "(object_id \<times> string) list"
  log :: "log_entry list"
  calls :: "call list"

record response =
  r_uidValidity :: nat
  r_uid :: nat
  r_id :: object_id
  r_mailbox :: object_id
  r_mailboxPath :: string
  r_size :: nat
  r_status :: string

text \<open>
  How \<^verbatim>\<open>fn\<close> is called: \<^verbatim>\<open>fn(null, bool, response)\<close>,
  \<^verbatim>\<open>fn(null, err.imapResponse)\<close>, \<^verbatim>\<open>fn(err)\<close>, or
  \<^verbatim>\<open>fn(refineAndLogError(err, session, true, this))\<close>.
\<close>

datatype callback =
    Success bool response
  | ImapResponse string
  | Failure js_error
  | Refined js_error

text \<open>Outcome of \<^verbatim>\<open>indexer.storeNodeBodies\<close>: it throws (having stored some blobs),
  or returns \<^verbatim>\<open>hasNodeBodies\<close> after writing \<^verbatim>\<open>attachmentMap\<close> on the tree.\<close>

datatype store_outcome =
    StoreThrew js_error "blob_id list"
  | Stored bool "(string \<times> blob_id) list option"

text \<open>
  The collaborators of one call. \<open>now\<close> is the clock; \<open>one_day_ago\<close> is what
  \<^verbatim>\<open>dayjs().subtract(1, 'day').toDate()\<close> yields at that clock: dayjs moves by a
  calendar day of the server's local time, which is 24 hours before \<open>now\<close> except
  across a change of daylight saving time (23 or 25 hours). \<open>aliases_error k\<close> is the
  rejection, if any, of the k-th \<^verbatim>\<open>Aliases.findOneAndUpdate\<close> call site in source order;
  \<open>sent_at\<close> is the clock when the alert email has been sent.
\<close>

record wsp_request =
  q_action :: string
  q_session :: session
  q_path :: string
  q_flags :: "string list"
  q_date :: timestamp
  q_raw :: raw_message

record env =
  now :: timestamp
  one_day_ago :: timestamp
  sent_at :: timestamp
  wsp :: "(wsp_request \<Rightarrow> world \<Rightarrow> (js_error + bool \<times> response) \<times> world) option"
  sendApn :: "js_error option"
  refreshSession :: "js_error option"
  isOverQuota :: "js_error + nat \<times> bool"
  encryptMessage :: "string \<Rightarrow> raw_message \<Rightarrow> js_error + raw_message"
  isCodeBug :: "js_error \<Rightarrow> bool"
  isRetryableError :: "js_error \<Rightarrow> bool"
  aliases_error :: "nat \<Rightarrow> js_error option"
  email :: "js_error option"
  prepareMessage :: "string list \<Rightarrow> timestamp \<Rightarrow> raw_message \<Rightarrow> js_error + prepared"
  getFingerprint :: "session \<Rightarrow> string \<Rightarrow> string \<Rightarrow> string"
  getMaxQuota :: "js_error + nat"
  getMaildata :: "mime_tree \<Rightarrow> maildata"
  storeNodeBodies :: "maildata \<Rightarrow> mime_tree \<Rightarrow> store_outcome"
  splitLines :: "string \<Rightarrow> string list"
  convert :: "string \<Rightarrow> string"
  getThreadId :: "string \<Rightarrow> mime_tree \<Rightarrow> js_error + object_id"
  create_error :: "js_error option"
  updateStorageUsed :: "js_error + nat"
  broadcast_error :: "js_error option"
  addEntries_error :: "js_error option"
  deleteMany_error :: "js_error option"

section \<open>Database operations\<close>

text \<open>
  Modelled from the spec: the model classes \<^verbatim>\<open>Aliases\<close>, \<^verbatim>\<open>Mailboxes\<close> and
  \<^verbatim>\<open>Messages\<close> are not part of the handler. \<^verbatim>\<open>findOne\<close> yields the first document
  that matches the filter, or null.
\<close>

definition findOne :: "('a \<Rightarrow> bool) \<Rightarrow> 'a list \<Rightarrow> 'a option" where
  "findOne P xs = find P xs"

text \<open>
  Modelled from the spec: \<^verbatim>\<open>findOneAndUpdate\<close> / \<^verbatim>\<open>findByIdAndUpdate\<close> with
  \<^verbatim>\<open>returnDocument: 'before'\<close> is one atomic storage operation: it applies the
  update to the first matching document and yields that document as it was before, or
  null (and changes nothing) when none matches.
\<close>

fun findOneAndUpdate :: "('a \<Rightarrow> bool) \<Rightarrow> ('a \<Rightarrow> 'a) \<Rightarrow> 'a list \<Rightarrow> 'a option \<times> 'a list" where
  "findOneAndUpdate P f [] = (None, [])"
| "findOneAndUpdate P f (x # xs) =
     (if P x then (Some x, f x # xs)
      else (case findOneAndUpdate P f xs of (r, ys) \<Rightarrow> (r, x # ys)))"

definition log_fatal :: "js_error \<Rightarrow> world \<Rightarrow> world" where
  "log_fatal e w = w\<lparr>log := log w @ [Fatal e]\<rparr>"

definition log_debug :: "string \<Rightarrow> world \<Rightarrow> world" where
  "log_debug msg w = w\<lparr>log := log w @ [Debug msg]\<rparr>"

section \<open>Encryption gate and alert throttling\<close>

text \<open>\<^verbatim>\<open>dayjs().subtract(1, 'hour')\<close> moves the clock by 3600000 milliseconds (dayjs
  handles units below a day on the timestamp).\<close>

definition hour :: int where "hour = 3600000"

definition same_alias :: "session \<Rightarrow> alias_doc \<Rightarrow> bool" where
  "same_alias s a = (a_id a = alias_id (user s) \<and> a_domain a = domain_id (user s))"

text \<open>After a successful encryption: unset \<^verbatim>\<open>pgp_error_sent_at\<close> if it exists and is
  at least one hour old; a rejection is only logged.\<close>

definition unset_pgp_error :: "env \<Rightarrow> session \<Rightarrow> world \<Rightarrow> world" where
  "unset_pgp_error ev s w =
     (case aliases_error ev 1 of
        Some e \<Rightarrow> log_fatal e w
      | None \<Rightarrow>
          w\<lparr>aliases := snd (findOneAndUpdate
               (\<lambda>a. same_alias s a \<and>
                  (case pgp_error_sent_at a of None \<Rightarrow> False | Some t \<Rightarrow> t \<le> now ev - hour))
               (\<lambda>a. a\<lparr>pgp_error_sent_at := None\<rparr>) (aliases w))\<rparr>)"

text \<open>
  After a failed encryption that is neither a code bug nor retryable: the conditional
  update sets \<^verbatim>\<open>pgp_error_sent_at\<close> to now if it is absent or not later than one day
  ago (\<open>one_day_ago\<close>);
  only when it matched is the alert email sent. When the email went out the field is set
  again (to the clock at that moment); when sending failed the field is unset, provided it
  still holds the value just written. \<open>emails\<close> records the alerts that went out.
\<close>

definition alert_owner :: "env \<Rightarrow> session \<Rightarrow> js_error \<Rightarrow> world \<Rightarrow> world" where
  "alert_owner ev s err w =
     (case aliases_error ev 2 of
        Some e \<Rightarrow> log_fatal e w
      | None \<Rightarrow>
          (case findOneAndUpdate
               (\<lambda>a. same_alias s a \<and>
                  (case pgp_error_sent_at a of None \<Rightarrow> True | Some t \<Rightarrow> t \<le> one_day_ago ev))
               (\<lambda>a. a\<lparr>pgp_error_sent_at := Some (now ev)\<rparr>) (aliases w) of
             (None, _) \<Rightarrow> w
           | (Some al, as) \<Rightarrow>
               (let w1 = w\<lparr>aliases := as\<rparr> in
                case email ev of
                  None \<Rightarrow>
                    (let w2 = w1\<lparr>emails := emails w1 @
                           [\<lparr>e_template = ''alert'', e_to = owner_full_email (user s),
                             e_subject = Translate ''PGP_ENCRYPTION_ERROR'' (user_locale (user s)) [],
                             e_error = err\<rparr>]\<rparr> in
                     case aliases_error ev 3 of
                       Some e \<Rightarrow> log_fatal e w2
                     | None \<Rightarrow>
                         w2\<lparr>aliases := snd (findOneAndUpdate (\<lambda>a. a_id a = a_id al)
                              (\<lambda>a. a\<lparr>pgp_error_sent_at := Some (sent_at ev)\<rparr>) (aliases w2))\<rparr>)
                | Some e \<Rightarrow>
                    (let w2 = log_fatal e w1 in
                     case aliases_error ev 4 of
                       Some e' \<Rightarrow> log_fatal e' w2
                     | None \<Rightarrow>
                         w2\<lparr>aliases := snd (findOneAndUpdate
                              (\<lambda>a. same_alias s a \<and> pgp_error_sent_at a = Some (now ev))
                              (\<lambda>a. a\<lparr>pgp_error_sent_at := None\<rparr>) (aliases w2))\<rparr>))))"

text \<open>
  The gate: taken only if the flags do not include \<^verbatim>\<open>\Draft\<close> and the session's user
  has \<^verbatim>\<open>alias_has_pgp\<close> and a non-empty \<^verbatim>\<open>alias_public_key\<close>. A failure of
  \<^verbatim>\<open>encryptMessage\<close> is caught: \<^verbatim>\<open>raw\<close> keeps its value.
\<close>

definition encryption_gate ::
  "env \<Rightarrow> session \<Rightarrow> string list \<Rightarrow> raw_message \<Rightarrow> world \<Rightarrow> raw_message \<times> world" where
  "encryption_gate ev s flags raw w =
     (case alias_public_key (user s) of
        None \<Rightarrow> (raw, w)
      | Some key \<Rightarrow>
          if \<not> includes_flag flags Draft \<and> alias_has_pgp (user s) \<and> key \<noteq> [] then
            (let w1 = w\<lparr>calls := calls w @ [EncryptMessage key raw]\<rparr> in
             case encryptMessage ev key raw of
               Inr raw' \<Rightarrow> (raw', unset_pgp_error ev s w1)
             | Inl err \<Rightarrow>
                 (let w2 = log_fatal err w1 in
                  if \<not> isCodeBug ev err \<and> \<not> isRetryableError ev err
                  then (raw, alert_owner ev s err w2) else (raw, w2)))
          else (raw, w))"

section \<open>The append pipeline\<close>

text \<open>\<^verbatim>\<open>String.prototype.trim\<close> on the ASCII white space characters.\<close>

definition is_space :: "char \<Rightarrow> bool" where
  "is_space c = (c \<in> set [CHR 0x20, CHR 0x09, CHR 0x0A, CHR 0x0B, CHR 0x0C, CHR 0x0D])"

definition trim :: "string \<Rightarrow> string" where
  "trim s = rev (dropWhile is_space (rev (dropWhile is_space s)))"

text \<open>\<^verbatim>\<open>lines.join(' ')\<close>\<close>

fun join_space :: "string list \<Rightarrow> string" where
  "join_space [] = []"
| "join_space [l] = l"
| "join_space (l # ls) = l @ CHR 0x20 # join_space ls"

text \<open>The text kept for indexing: at most 1024 characters of the converted text.\<close>

definition index_text :: "env \<Rightarrow> maildata \<Rightarrow> string" where
  "index_text ev md =
     (if truthy (md_text md) then
        (case md_text md of
           None \<Rightarrow> []
         | Some t \<Rightarrow>
            (let text1 = take 1048576 (trim (join_space (splitLines ev t)));
                 text2 = convert ev text1;
                 text3 = (if length text2 > 1024 then take 1024 text2 else text2)
             in trim text3))
      else [])"

text \<open>
  The result of the \<^verbatim>\<open>try\<close> block: either the callback was called, or an error
  was thrown; the latter carries the variables the \<^verbatim>\<open>catch\<close> block reads
  (\<^verbatim>\<open>hasNodeBodies\<close>, \<^verbatim>\<open>mimeTreeData\<close>, \<^verbatim>\<open>maildata\<close>) as they are at the throw.
\<close>

datatype try_result =
    Returned callback world
  | Thrown js_error bool "mime_tree option" "maildata option" world

definition mailbox_does_not_exist :: "session \<Rightarrow> js_error" where
  "mailbox_does_not_exist s =
     IMAPError (Translate ''IMAP_MAILBOX_DOES_NOT_EXIST'' (user_locale (user s)) [])
       (Some ''TRYCREATE'')"

definition mailbox_over_quota :: "session \<Rightarrow> js_error" where
  "mailbox_over_quota s =
     IMAPError (Translate ''IMAP_MAILBOX_OVER_QUOTA'' (user_locale (user s)) [])
       (Some ''OVERQUOTA'')"

definition message_exceeds_quota :: "session \<Rightarrow> js_error" where
  "message_exceeds_quota s =
     IMAPError (Translate ''IMAP_MAILBOX_MESSAGE_EXCEEDS_QUOTA'' (user_locale (user s))
                  [username (user s)])
       (Some ''OVERQUOTA'')"

definition message_size_exceeded :: "session \<Rightarrow> js_error" where
  "message_size_exceeded s =
     IMAPError (Translate ''IMAP_MESSAGE_SIZE_EXCEEDED'' (user_locale (user s)) []) None"

text \<open>Modelled from the spec: \<^verbatim>\<open>Threads.getThreadId\<close> is not part of the handler; it
  returns an existing thread id or creates a new one.\<close>

definition ensure_thread :: "object_id \<Rightarrow> world \<Rightarrow> world" where
  "ensure_thread t w = (if t \<in> set (threads w) then w else w\<lparr>threads := threads w @ [t]\<rparr>)"

text \<open>The \<^verbatim>\<open>data\<close> object as it is when \<^verbatim>\<open>Messages.create\<close> receives it.
  \<open>mailbox0\<close> is the document found by path, \<open>mailbox\<close> the one returned by the
  counter update. \<^verbatim>\<open>data.flags\<close> is the caller's array, so the pushed
  \<^verbatim>\<open>\Draft\<close> is not seen by the booleans computed before the push.\<close>

definition message_data ::
  "env \<Rightarrow> session \<Rightarrow> string list \<Rightarrow> mailbox \<Rightarrow> mailbox \<Rightarrow> prepared \<Rightarrow> string \<Rightarrow>
   maildata \<Rightarrow> mime_tree \<Rightarrow> object_id \<Rightarrow> message" where
  "message_data ev s flags mailbox0 mailbox p fingerprint md tree thread =
     (let retention = (case retention mailbox0 of Some r \<Rightarrow> r | None \<Rightarrow> 0) in
      \<lparr>m_fingerprint = fingerprint,
       m_mailbox = mb_id mailbox0,
       m_id = p_id p,
       m_root = p_id p,
       m_exp = (retention \<noteq> 0),
       m_rdate = now ev + retention,
       m_idate = p_idate p,
       m_hdate = p_hdate p,
       m_flags = (if specialUse mailbox = Some Drafts then flags @ [Draft] else flags),
       m_size = p_size p,
       m_headers = p_headers p,
       m_mimeTree = tree,
       m_envelope = p_envelope p,
       m_bodystructure = p_bodystructure p,
       m_msgid = p_msgid p,
       m_unseen = (\<not> includes_flag flags Seen),
       m_flagged = includes_flag flags Flagged,
       m_undeleted = (\<not> includes_flag flags Deleted),
       m_draft = includes_flag flags Draft,
       m_magic = md_magic md,
       m_subject = p_subject p,
       m_copied = False,
       m_remoteAddress = remoteAddress s,
       m_transaction = ''APPEND'',
       m_text = index_text ev md,
       m_attachments =
         (case md_attachments md of
            None \<Rightarrow> None
          | Some ats \<Rightarrow> if length ats > 0 then Some ats else None),
       m_uid = uidNext mailbox,
       m_modseq = modifyIndex mailbox + 1,
       m_searchable = (\<not> includes_flag flags Deleted),
       m_junk = (specialUse mailbox = Some Junk),
       m_thread = thread\<rparr>)"

text \<open>After the message is created: storage accounting (a failure is only logged), the
  live broadcast to the session that has the mailbox selected, the journal entry, the
  notifier, and the callback.\<close>

definition notify ::
  "env \<Rightarrow> session \<Rightarrow> mailbox \<Rightarrow> prepared \<Rightarrow> message \<Rightarrow> bool \<Rightarrow> mime_tree \<Rightarrow> maildata \<Rightarrow>
   world \<Rightarrow> try_result" where
  "notify ev s mailbox p msg has tree md w =
     (let w1 = (case updateStorageUsed ev of
                  Inl e \<Rightarrow> log_fatal e w
                | Inr n \<Rightarrow> w\<lparr>storage_used := n\<rparr>);
          resp = \<lparr>r_uidValidity = uidValidity mailbox, r_uid = m_uid msg, r_id = p_id p,
                  r_mailbox = mb_id mailbox, r_mailboxPath = mb_path mailbox,
                  r_size = p_size p, r_status = ''new''\<rparr>;
          w2 = log_debug ''command response'' w1;
          sel = (selected_mailbox s = Some (r_mailbox resp))
      in
      case (if sel then broadcast_error ev else None) of
        Some e \<Rightarrow> Thrown e has (Some tree) (Some md) w2
      | None \<Rightarrow>
          (let w3 = (if sel
                     then w2\<lparr>broadcasts := broadcasts w2 @ [(session_id s, ''EXISTS'', r_uid resp)]\<rparr>
                     else w2)
           in
           case addEntries_error ev of
             Some e \<Rightarrow> Thrown e has (Some tree) (Some md) w3
           | None \<Rightarrow>
               (let w4 = w3\<lparr>journal := journal w3 @
                           [\<lparr>j_ignore = (selected_mailbox s = Some (m_mailbox msg)),
                             j_command = ''EXISTS'', j_uid = m_uid msg,
                             j_mailbox = mb_id mailbox, j_message = m_id msg\<rparr>]\<rparr>;
                    w5 = w4\<lparr>fired := fired w4 @ [alias_id (user s)]\<rparr>
                in Returned (Success True resp) w5)))"

text \<open>The update document \<^verbatim>\<open>{ $inc: { uidNext: 1, modifyIndex: 1 } }\<close>.\<close>

definition inc_counters :: "mailbox \<Rightarrow> mailbox" where
  "inc_counters m = m\<lparr>uidNext := uidNext m + 1, modifyIndex := modifyIndex m + 1\<rparr>"

text \<open>Counter allocation, thread, message creation.\<close>

definition persist ::
  "env \<Rightarrow> session \<Rightarrow> string list \<Rightarrow> mailbox \<Rightarrow> prepared \<Rightarrow> string \<Rightarrow> maildata \<Rightarrow>
   mime_tree \<Rightarrow> bool \<Rightarrow> world \<Rightarrow> try_result" where
  "persist ev s flags mailbox0 p fingerprint md tree has w =
     (case findOneAndUpdate (\<lambda>m. mb_id m = mb_id mailbox0) inc_counters (mailboxes w) of
        (None, _) \<Rightarrow> Thrown (mailbox_does_not_exist s) has (Some tree) (Some md) w
      | (Some mailbox, mbs) \<Rightarrow>
          (let w1 = w\<lparr>mailboxes := mbs\<rparr> in
           case getThreadId ev (p_subject p) tree of
             Inl e \<Rightarrow> Thrown e has (Some tree) (Some md) w1
           | Inr thread \<Rightarrow>
               (let w2 = ensure_thread thread w1;
                    msg = message_data ev s flags mailbox0 mailbox p fingerprint md tree thread
                in
                case create_error ev of
                  Some e \<Rightarrow> Thrown e has (Some tree) (Some md) w2
                | None \<Rightarrow>
                    notify ev s mailbox p msg has tree md
                      (log_debug ''message created'' (w2\<lparr>messages := messages w2 @ [msg]\<rparr>)))))"

text \<open>
  Modelled from the spec: \<^verbatim>\<open>indexer.storeNodeBodies\<close> and the attachment storage are
  not part of the handler. Blobs are content-addressed and reference-counted: storing
  adds one reference per blob id, \<^verbatim>\<open>deleteMany\<close> removes one reference per id given
  (and tolerates ids already gone). The blobs a successful \<^verbatim>\<open>storeNodeBodies\<close> stored
  are the values of the \<^verbatim>\<open>attachmentMap\<close> it wrote on the tree.
\<close>

definition map_values :: "(string \<times> blob_id) list option \<Rightarrow> blob_id list" where
  "map_values m = (case m of None \<Rightarrow> [] | Some kvs \<Rightarrow> map snd kvs)"

definition store_blobs :: "blob_id list \<Rightarrow> world \<Rightarrow> world" where
  "store_blobs ids w = w\<lparr>attachments := attachments w + mset ids\<rparr>"

definition deleteMany :: "blob_id list \<Rightarrow> world \<Rightarrow> world" where
  "deleteMany ids w = w\<lparr>attachments := attachments w - mset ids\<rparr>"

text \<open>Fingerprint, optional lookup of an existing message, final quota check, storing of
  the node bodies.\<close>

definition after_prepare ::
  "env \<Rightarrow> session \<Rightarrow> string list \<Rightarrow> nat \<Rightarrow> mailbox \<Rightarrow> prepared \<Rightarrow> world \<Rightarrow> try_result" where
  "after_prepare ev s flags storageUsed mailbox p w =
     (let mimeTree = p_mimeTree p;
          fingerprint = getFingerprint ev s (p_headers p) (body mimeTree)
      in
      case (if checkForExisting s
            then findOne (\<lambda>m. m_fingerprint m = fingerprint \<and> m_mailbox m = mb_id mailbox)
                   (messages w)
            else None) of
        Some existingMessage \<Rightarrow>
          Returned (Success True
            \<lparr>r_uidValidity = uidValidity mailbox, r_uid = m_uid existingMessage,
             r_id = m_id existingMessage, r_mailbox = mb_id mailbox,
             r_mailboxPath = mb_path mailbox, r_size = m_size existingMessage,
             r_status = ''new''\<rparr>) w
      | None \<Rightarrow>
          (case getMaxQuota ev of
             Inl e \<Rightarrow> Thrown e False (Some mimeTree) None w
           | Inr maxQuotaPerAlias \<Rightarrow>
               if storageUsed + p_size p > maxQuotaPerAlias
               then Thrown (message_exceeds_quota s) False (Some mimeTree) None w
               else
                 (let md = getMaildata ev mimeTree in
                  case storeNodeBodies ev md mimeTree of
                    StoreThrew e ids \<Rightarrow>
                      Thrown e False (Some mimeTree) (Some md) (store_blobs ids w)
                  | Stored has amap \<Rightarrow>
                      persist ev s flags mailbox p fingerprint md
                        (mimeTree\<lparr>attachmentMap := amap\<rparr>) has
                        (store_blobs (map_values amap) w))))"

text \<open>The \<^verbatim>\<open>try\<close> block of the direct path.\<close>

definition try_block ::
  "env \<Rightarrow> string \<Rightarrow> string list \<Rightarrow> timestamp \<Rightarrow> raw_message \<Rightarrow> session \<Rightarrow> world \<Rightarrow> try_result" where
  "try_block ev path flags date raw s w =
     (case refreshSession ev of
        Some e \<Rightarrow> Thrown e False None None w
      | None \<Rightarrow>
          (case isOverQuota ev of
             Inl e \<Rightarrow> Thrown e False None None w
           | Inr (storageUsed, over) \<Rightarrow>
               if over then Thrown (mailbox_over_quota s) False None None w
               else
                 (case findOne (\<lambda>m. mb_path m = path) (mailboxes w) of
                    None \<Rightarrow> Thrown (mailbox_does_not_exist s) False None None w
                  | Some mailbox \<Rightarrow>
                      (case encryption_gate ev s flags raw w of
                         (raw', w1) \<Rightarrow>
                           (case prepareMessage ev flags date raw' of
                              Inl e \<Rightarrow> Thrown e False None None w1
                            | Inr p \<Rightarrow> after_prepare ev s flags storageUsed mailbox p w1)))))"

text \<open>The \<^verbatim>\<open>catch\<close> block: the blob ids to clean up, the cleanup (its own failure
  is only logged), then the callback with the refined error.\<close>

definition attachmentIds :: "bool \<Rightarrow> mime_tree option \<Rightarrow> blob_id list" where
  "attachmentIds hasNodeBodies mimeTreeData =
     (case mimeTreeData of
        None \<Rightarrow> []
      | Some t \<Rightarrow>
          (case attachmentMap t of
             None \<Rightarrow> []
           | Some kvs \<Rightarrow> if hasNodeBodies then map snd kvs else []))"

definition catch_block ::
  "env \<Rightarrow> js_error \<Rightarrow> bool \<Rightarrow> mime_tree option \<Rightarrow> world \<Rightarrow> callback \<times> world" where
  "catch_block ev err hasNodeBodies mimeTreeData w =
     (let ids = attachmentIds hasNodeBodies mimeTreeData;
          w1 = (if length ids > 0
                then (case deleteMany_error ev of
                        Some e \<Rightarrow> log_fatal e w
                      | None \<Rightarrow> deleteMany ids w)
                else w)
      in (Refined err, w1))"

text \<open>The \<^verbatim>\<open>catch\<close> of the forwarding path.\<close>

definition wsp_catch :: "js_error \<Rightarrow> callback" where
  "wsp_catch err =
     (case imapResponse err of
        Some r \<Rightarrow> if r \<noteq> [] then ImapResponse r else Failure err
      | None \<Rightarrow> Failure err)"

fun raw_truthy :: "raw_message \<Rightarrow> bool" where
  "raw_truthy (RawBuffer bs) = True"
| "raw_truthy (RawString cs) = (cs \<noteq> [])"

text \<open>
  \<^verbatim>\<open>onAppend\<close>. With a websocket client (\<^verbatim>\<open>this.wsp\<close>) the call is checked for
  size and forwarded; without one the pipeline runs here.
\<close>

definition onAppend ::
  "env \<Rightarrow> string \<Rightarrow> string list \<Rightarrow> timestamp \<Rightarrow> raw_message \<Rightarrow> session \<Rightarrow> world \<Rightarrow>
   callback \<times> world" where
  "onAppend ev path flags date raw s w =
     (let w0 = log_debug ''APPEND'' w in
      case wsp ev of
        Some request \<Rightarrow>
          if raw_truthy raw \<and> raw_length raw > SIXTY_FOUR_MB_IN_BYTES
          then (wsp_catch (message_size_exceeded s), w0)
          else
            (case request
                    \<lparr>q_action = ''append'',
                     q_session = \<lparr>session_id = session_id s, user = user s,
                                  remoteAddress = remoteAddress s,
                                  checkForExisting = False, selected_mailbox = None\<rparr>,
                     q_path = path, q_flags = flags, q_date = date, q_raw = raw\<rparr> w0 of
               (Inl err, w1) \<Rightarrow> (wsp_catch err, w1)
             | (Inr (b, resp), w1) \<Rightarrow>
                 (let w2 = w1\<lparr>fired := fired w1 @ [alias_id (user s)]\<rparr>;
                      w3 = (case sendApn ev of
                              Some e \<Rightarrow> log_fatal e w2
                            | None \<Rightarrow> w2\<lparr>apns := apns w2 @ [(alias_id (user s), path)]\<rparr>)
                  in (Success b resp, w3)))
      | None \<Rightarrow>
          (case try_block ev path flags date raw s w0 of
             Returned cb w1 \<Rightarrow> (cb, w1)
           | Thrown err has tree md w1 \<Rightarrow> catch_block ev err has tree w1))"

section \<open>Sequences of appends\<close>

record request =
  rq_env :: env
  rq_path :: string
  rq_flags :: "string list"
  rq_date :: timestamp
  rq_raw :: raw_message
  rq_session :: session

text \<open>Appends served one after the other on the same storage.\<close>

fun appends :: "request list \<Rightarrow> world \<Rightarrow> callback list \<times> world" where
  "appends [] w = ([], w)"
| "appends (rq # rqs) w =
     (case onAppend (rq_env rq) (rq_path rq) (rq_flags rq) (rq_date rq) (rq_raw rq)
             (rq_session rq) w of
        (cb, w1) \<Rightarrow> (case appends rqs w1 of (cbs, w2) \<Rightarrow> (cb # cbs, w2)))"

text \<open>The counters of the mailbox with a given id (0 when there is none), and the
  messages of that mailbox created between two states.\<close>

definition uidNext_of :: "world \<Rightarrow> object_id \<Rightarrow> nat" where
  "uidNext_of w k =
     (case findOne (\<lambda>m. mb_id m = k) (mailboxes w) of None \<Rightarrow> 0 | Some m \<Rightarrow> uidNext m)"

definition modifyIndex_of :: "world \<Rightarrow> object_id \<Rightarrow> nat" where
  "modifyIndex_of w k =
     (case findOne (\<lambda>m. mb_id m = k) (mailboxes w) of None \<Rightarrow> 0 | Some m \<Rightarrow> modifyIndex m)"

definition allocated :: "world \<Rightarrow> world \<Rightarrow> object_id \<Rightarrow> message list" where
  "allocated w w' k = filter (\<lambda>m. m_mailbox m = k) (drop (length (messages w)) (messages w'))"

text \<open>
  What it means for the allocations of mailbox \<open>k\<close> between two states to be in order:
  the old messages are still there, each new message of the mailbox advanced both
  counters, and the new messages carry strictly increasing UIDs and mod-sequences that
  lie between the old and the new counter values.
\<close>

definition allocation_ordered :: "world \<Rightarrow> world \<Rightarrow> object_id \<Rightarrow> bool" where
  "allocation_ordered w w' k =
     (take (length (messages w)) (messages w') = messages w \<and>
      uidNext_of w k + length (allocated w w' k) \<le> uidNext_of w' k \<and>
      modifyIndex_of w k + length (allocated w w' k) \<le> modifyIndex_of w' k \<and>
      sorted_wrt (<) (map m_uid (allocated w w' k)) \<and>
      sorted_wrt (<) (map m_modseq (allocated w w' k)) \<and>
      list_all (\<lambda>m. uidNext_of w k \<le> m_uid m \<and> m_uid m < uidNext_of w' k \<and>
                    modifyIndex_of w k < m_modseq m \<and> m_modseq m \<le> modifyIndex_of w' k)
        (allocated w w' k))"

text \<open>The state a \<^verbatim>\<open>try\<close> block ends in.\<close>

fun result_world :: "try_result \<Rightarrow> world" where
  "result_world (Returned cb w) = w"
| "result_world (Thrown e has tree md w) = w"

text \<open>The storage proper: mailboxes, messages, threads, journal, blobs, accounting.\<close>

definition storage_unchanged :: "world \<Rightarrow> world \<Rightarrow> bool" where
  "storage_unchanged w w' =
     (mailboxes w' = mailboxes w \<and> messages w' = messages w \<and> threads w' = threads w \<and>
      journal w' = journal w \<and> attachments w' = attachments w \<and>
      storage_used w' = storage_used w)"

text \<open>The condition under which the encryption helper is called.\<close>

definition encryption_configured :: "session \<Rightarrow> bool" where
  "encryption_configured s = (alias_has_pgp (user s) \<and> truthy (alias_public_key (user s)))"

text \<open>Two states agree on everything but the alias directory, the alert emails, the
  log and the record of calls to the encryption helper.\<close>

definition agrees :: "world \<Rightarrow> world \<Rightarrow> bool" where
  "agrees w w' =
     (mailboxes w' = mailboxes w \<and> messages w' = messages w \<and> threads w' = threads w \<and>
      journal w' = journal w \<and> attachments w' = attachments w \<and>
      storage_used w' = storage_used w \<and> broadcasts w' = broadcasts w \<and>
      fired w' = fired w \<and> apns w' = apns w)"

text \<open>Two \<^verbatim>\<open>try\<close> blocks end the same way, in states that agree.\<close>

fun same_result :: "try_result \<Rightarrow> try_result \<Rightarrow> bool" where
  "same_result (Returned cb w) (Returned cb' w') = (cb = cb' \<and> agrees w w')"
| "same_result (Thrown e h t m w) (Thrown e' h' t' m' w') =
     (e = e' \<and> h = h' \<and> t = t' \<and> m = m' \<and> agrees w w')"
| "same_result _ _ = False"

text \<open>The append gets as far as the encryption gate: the session is refreshed, the
  owner is not over quota at the zero-byte check, the mailbox exists.\<close>

definition reaches_gate :: "env \<Rightarrow> string \<Rightarrow> world \<Rightarrow> bool" where
  "reaches_gate ev path w =
     (refreshSession ev = None \<and>
      (case isOverQuota ev of Inl e \<Rightarrow> False | Inr (storageUsed, over) \<Rightarrow> \<not> over) \<and>
      findOne (\<lambda>m. mb_path m = path) (mailboxes w) \<noteq> None)"

text \<open>Every alias document of the owner carries an alert timestamp not older than
  \<open>lo\<close>.\<close>

definition alert_fresh :: "object_id \<Rightarrow> object_id \<Rightarrow> timestamp \<Rightarrow> world \<Rightarrow> bool" where
  "alert_fresh aid did lo w =
     list_all (\<lambda>a. a_id a = aid \<and> a_domain a = did \<longrightarrow>
                 (case pgp_error_sent_at a of None \<Rightarrow> False | Some t \<Rightarrow> lo \<le> t))
       (aliases w)"

text \<open>The alias documents of an owner, and the sessions of an owner.\<close>

definition owner_docs :: "object_id \<Rightarrow> object_id \<Rightarrow> world \<Rightarrow> alias_doc list" where
  "owner_docs aid did w = filter (\<lambda>a. a_id a = aid \<and> a_domain a = did) (aliases w)"

definition of_owner :: "object_id \<Rightarrow> object_id \<Rightarrow> session \<Rightarrow> bool" where
  "of_owner aid did s = (alias_id (user s) = aid \<and> domain_id (user s) = did)"

text \<open>The gate calls the encryption helper and the helper returns the encrypted
  message.\<close>

definition encrypts :: "env \<Rightarrow> session \<Rightarrow> string list \<Rightarrow> raw_message \<Rightarrow> bool" where
  "encrypts ev s flags raw =
     (case alias_public_key (user s) of
        None \<Rightarrow> False
      | Some key \<Rightarrow>
          \<not> includes_flag flags Draft \<and> alias_has_pgp (user s) \<and> key \<noteq> [] \<and>
          \<not> isl (encryptMessage ev key raw))"

section \<open>A concrete scenario\<close>

definition ex_user :: user where
  "ex_user = \<lparr>alias_id = 1, domain_id = 2, user_locale = ''en'', username = ''a@example.com'',
              owner_full_email = ''owner@example.com'', alias_has_pgp = False,
              alias_public_key = None\<rparr>"

definition ex_session :: session where
  "ex_session = \<lparr>session_id = ''s1'', user = ex_user, remoteAddress = ''127.0.0.1'',
                 checkForExisting = False, selected_mailbox = None\<rparr>"

definition ex_pgp_session :: session where
  "ex_pgp_session = ex_session\<lparr>user := ex_user\<lparr>alias_has_pgp := True,
                                                  alias_public_key := Some ''KEY''\<rparr>\<rparr>"

definition ex_inbox :: mailbox where
  "ex_inbox = \<lparr>mb_id = 10, mb_path = ''INBOX'', uidValidity = 1, uidNext = 5, modifyIndex = 8,
               specialUse = None, retention = Some 0\<rparr>"

definition ex_drafts :: mailbox where
  "ex_drafts = \<lparr>mb_id = 11, mb_path = ''Drafts'', uidValidity = 1, uidNext = 1,
                modifyIndex = 0, specialUse = Some Drafts, retention = None\<rparr>"

definition ex_tree :: mime_tree where
  "ex_tree = \<lparr>body = ''hello'', attachmentMap = None\<rparr>"

definition ex_prepared :: prepared where
  "ex_prepared = \<lparr>p_id = 77, p_mimeTree = ex_tree, p_size = 42, p_bodystructure = ''bs'',
                  p_envelope = ''env'', p_idate = 0, p_hdate = 0, p_msgid = ''<1@x>'',
                  p_subject = ''hi'', p_headers = ''h''\<rparr>"

definition ex_maildata :: maildata where
  "ex_maildata = \<lparr>md_text = None, md_magic = 3, md_attachments = None\<rparr>"

definition ex_world :: world where
  "ex_world = \<lparr>aliases = [\<lparr>a_id = 1, a_domain = 2, pgp_error_sent_at = None\<rparr>],
               mailboxes = [ex_inbox, ex_drafts], messages = [], threads = [],
               journal = [], attachments = {#}, storage_used = 100, emails = [],
               broadcasts = [], fired = [], apns = [], log = [], calls = []\<rparr>"

text \<open>Every collaborator succeeds; the owner uses 100 bytes of a quota of 142; the
  indexer stores one attachment blob.\<close>

definition ex_env :: env where
  "ex_env = \<lparr>now = 0, one_day_ago = - 86400000, sent_at = 1, wsp = None, sendApn = None, refreshSession = None,
             isOverQuota = Inr (100, False),
             encryptMessage = (\<lambda>k r. Inr r),
             isCodeBug = (\<lambda>e. False), isRetryableError = (\<lambda>e. False),
             aliases_error = (\<lambda>k. None), email = None,
             prepareMessage = (\<lambda>f d r. Inr ex_prepared),
             getFingerprint = (\<lambda>s h b. h @ b),
             getMaxQuota = Inr 142,
             getMaildata = (\<lambda>t. ex_maildata),
             storeNodeBodies = (\<lambda>md t. Stored True (Some [(''1'', 900)])),
             splitLines = (\<lambda>t. [t]), convert = (\<lambda>t. t),
             getThreadId = (\<lambda>subj t. Inr 50),
             create_error = None, updateStorageUsed = Inr 142,
             broadcast_error = None, addEntries_error = None, deleteMany_error = None\<rparr>"

text \<open>The message the scenario stores in the inbox, and the state after storing it.\<close>

definition ex_message :: message where
  "ex_message = message_data ex_env ex_session [] ex_inbox ex_inbox ex_prepared ''hhello''
                  ex_maildata (ex_tree\<lparr>attachmentMap := Some [(''1'', 900)]\<rparr>) 50"

text \<open>The scenario as requests: a plain append to the inbox, and the same as a delivery
  that asks for the lookup of an existing message.\<close>

definition ex_request :: request where
  "ex_request = \<lparr>rq_env = ex_env, rq_path = ''INBOX'', rq_flags = [], rq_date = 0,
                 rq_raw = RawString [], rq_session = ex_session\<rparr>"

definition ex_mx_request :: request where
  "ex_mx_request = ex_request\<lparr>rq_session := ex_session\<lparr>checkForExisting := True\<rparr>\<rparr>"

text \<open>The state after the first delivery, and the session of the second.\<close>

definition ex_mx_session :: session where
  "ex_mx_session = ex_session\<lparr>checkForExisting := True\<rparr>"

definition ex_delivered :: world where
  "ex_delivered = snd (appends [ex_mx_request] ex_world)"

text \<open>A buffer of 64 MiB + 1 bytes.\<close>

definition ex_big_raw :: raw_message where
  "ex_big_raw = RawBuffer (replicate 67108865 0)"

text \<open>A quota large enough for it, and an indexer that reports the true size.\<close>

definition ex_big_env :: env where
  "ex_big_env = ex_env\<lparr>isOverQuota := Inr (0, False), getMaxQuota := Inr 1000000000,
                       prepareMessage := (\<lambda>f d r. Inr (ex_prepared\<lparr>p_size := raw_length r\<rparr>))\<rparr>"

text \<open>A front end whose back end is unreachable.\<close>

definition ex_offline :: "wsp_request \<Rightarrow> world \<Rightarrow> (js_error + bool \<times> response) \<times> world" where
  "ex_offline q w = (Inl (Error ''offline''), w)"

definition ex_front_env :: env where
  "ex_front_env = ex_env\<lparr>wsp := Some ex_offline\<rparr>"

text \<open>The same with a quota one byte short.\<close>

definition ex_tight_env :: env where
  "ex_tight_env = ex_env\<lparr>getMaxQuota := Inr 141\<rparr>"



text \<open>The owner's key is unusable: every encryption fails with an error that is
  neither a code bug nor retryable.\<close>

definition ex_bad_key_env :: env where
  "ex_bad_key_env = ex_env\<lparr>encryptMessage := (\<lambda>k r. Inl (Error ''bad key''))\<rparr>"

text \<open>Appends by the owner with encryption configured, at clock \<open>t\<close>: one whose
  encryption fails, one whose encryption succeeds; the server's local day has 24 hours.\<close>

definition ex_failed_encryption :: "timestamp \<Rightarrow> request" where
  "ex_failed_encryption t =
     \<lparr>rq_env = ex_bad_key_env\<lparr>now := t, one_day_ago := t - 86400000, sent_at := t\<rparr>, rq_path = ''INBOX'', rq_flags = [],
      rq_date = 0, rq_raw = RawString [], rq_session = ex_pgp_session\<rparr>"

definition ex_encrypted :: "timestamp \<Rightarrow> request" where
  "ex_encrypted t =
     \<lparr>rq_env = ex_env\<lparr>now := t, one_day_ago := t - 86400000, sent_at := t\<rparr>, rq_path = ''INBOX'', rq_flags = [],
      rq_date = 0, rq_raw = RawString [], rq_session = ex_pgp_session\<rparr>"

text \<open>A failing append at clock \<open>t\<close> on a day of 23 hours of the server's local time
  (the clocks went forward): one day ago is 23 hours ago.\<close>

definition ex_failed_encryption_dst :: "timestamp \<Rightarrow> request" where
  "ex_failed_encryption_dst t =
     (ex_failed_encryption t)\<lparr>rq_env := rq_env (ex_failed_encryption t)
                                          \<lparr>one_day_ago := t - 82800000\<rparr>\<rparr>"

text \<open>An append of the owner flagged \<^verbatim>\<open>\Draft\<close>, a failing append of another owner
  of the same domain, and a run of appends: a successful encryption, the draft, the
  other owner's failure.\<close>

definition ex_draft_append :: "timestamp \<Rightarrow> request" where
  "ex_draft_append t = (ex_failed_encryption t)\<lparr>rq_flags := [Draft]\<rparr>"

definition ex_other_owner :: "timestamp \<Rightarrow> request" where
  "ex_other_owner t =
     (ex_failed_encryption t)\<lparr>rq_session := ex_pgp_session\<lparr>user := ex_user
        \<lparr>alias_id := 3, owner_full_email := ''other@example.com'', alias_has_pgp := True,
         alias_public_key := Some ''KEY3''\<rparr>\<rparr>\<rparr>"

definition ex_between :: "request list" where
  "ex_between = [ex_encrypted 1800000, ex_draft_append 3600000, ex_other_owner 7200000]"


text \<open>The scenario with the alias document of the other owner.\<close>

definition ex_shared_world :: world where
  "ex_shared_world =
     ex_world\<lparr>aliases := aliases ex_world @ [\<lparr>a_id = 3, a_domain = 2, pgp_error_sent_at = None\<rparr>]\<rparr>"

section \<open>Properties of the building blocks\<close>

lemmas ex_defs = ex_user_def ex_session_def ex_pgp_session_def ex_inbox_def ex_drafts_def ex_tree_def ex_prepared_def ex_maildata_def ex_world_def ex_env_def
lemmas pipe_defs = onAppend_def try_block_def after_prepare_def persist_def notify_def catch_block_def encryption_gate_def
  findOne_def log_debug_def log_fatal_def store_blobs_def map_values_def ensure_thread_def deleteMany_def attachmentIds_def

lemma findOneAndUpdate_fst: "fst (findOneAndUpdate P f xs) = find P xs"
  by (induction xs) (auto split: prod.splits)

lemma findOneAndUpdate_None:
  "findOneAndUpdate P f xs = (None, ys) \<Longrightarrow> ys = xs"
  by (induction xs arbitrary: ys) (auto split: prod.splits if_splits)

lemma findOneAndUpdate_Some:
  "findOneAndUpdate P f xs = (Some x, ys) \<Longrightarrow>
     \<exists>i<length xs. xs ! i = x \<and> P x \<and> ys = xs[i := f x] \<and> (\<forall>j<i. \<not> P (xs ! j))"
proof (induction xs arbitrary: ys)
  case Nil
  then show ?case by simp
next
  case (Cons a xs)
  show ?case
  proof (cases "P a")
    case True
    with Cons.prems have "x = a" "ys = f a # xs" by auto
    with True show ?thesis by (intro exI[of _ 0]) simp
  next
    case False
    with Cons.prems obtain zs where z: "findOneAndUpdate P f xs = (Some x, zs)" "ys = a # zs"
      by (auto split: prod.splits)
    from Cons.IH[OF z(1)] obtain i where i: "i < length xs" "xs ! i = x" "P x" "zs = xs[i := f x]"
      "\<forall>j<i. \<not> P (xs ! j)" by blast
    have "\<forall>j<Suc i. \<not> P ((a # xs) ! j)"
      using False i(5) by (auto simp: less_Suc_eq_0_disj)
    with i z(2) show ?thesis by (intro exI[of _ "Suc i"]) simp
  qed
qed

lemma gate_frame:
  "encryption_gate ev s flags raw w = (raw', w') \<Longrightarrow>
     mailboxes w' = mailboxes w \<and> messages w' = messages w \<and> threads w' = threads w \<and>
     journal w' = journal w \<and> attachments w' = attachments w \<and>
     storage_used w' = storage_used w \<and> broadcasts w' = broadcasts w \<and>
     fired w' = fired w \<and> apns w' = apns w"
  by (auto simp: encryption_gate_def unset_pgp_error_def alert_owner_def log_fatal_def Let_def
      split: option.splits sum.splits if_splits prod.splits)

lemma notify_Returned:
  "notify ev s mailbox p msg has tree md w = Returned cb w' \<Longrightarrow>
     cb = Success True \<lparr>r_uidValidity = uidValidity mailbox, r_uid = m_uid msg, r_id = p_id p,
                  r_mailbox = mb_id mailbox, r_mailboxPath = mb_path mailbox,
                  r_size = p_size p, r_status = ''new''\<rparr> \<and>
     mailboxes w' = mailboxes w \<and> messages w' = messages w \<and> threads w' = threads w \<and>
     attachments w' = attachments w \<and> aliases w' = aliases w \<and> emails w' = emails w \<and> calls w' = calls w \<and>
     journal w' = journal w @ [\<lparr>j_ignore = (selected_mailbox s = Some (m_mailbox msg)),
                             j_command = ''EXISTS'', j_uid = m_uid msg,
                             j_mailbox = mb_id mailbox, j_message = m_id msg\<rparr>]"
  by (auto simp: notify_def log_fatal_def log_debug_def Let_def
      split: option.splits sum.splits if_splits)

lemma notify_Thrown:
  "notify ev s mailbox p msg has tree md w = Thrown e h t m w' \<Longrightarrow>
     h = has \<and> t = Some tree \<and>
     mailboxes w' = mailboxes w \<and> messages w' = messages w \<and> threads w' = threads w \<and>
     attachments w' = attachments w \<and> aliases w' = aliases w \<and> emails w' = emails w \<and> calls w' = calls w \<and>
     journal w' = journal w"
  by (auto simp: notify_def log_fatal_def log_debug_def Let_def
      split: option.splits sum.splits if_splits)



lemma message_data_fields [simp]:
  "m_uid (message_data ev s flags mailbox0 mailbox p fp md tree thread) = uidNext mailbox"
  "m_modseq (message_data ev s flags mailbox0 mailbox p fp md tree thread) = modifyIndex mailbox + 1"
  "m_mailbox (message_data ev s flags mailbox0 mailbox p fp md tree thread) = mb_id mailbox0"
  "m_id (message_data ev s flags mailbox0 mailbox p fp md tree thread) = p_id p"
  "m_size (message_data ev s flags mailbox0 mailbox p fp md tree thread) = p_size p"
  "m_flags (message_data ev s flags mailbox0 mailbox p fp md tree thread) =
     (if specialUse mailbox = Some Drafts then flags @ [Draft] else flags)"
  "m_mimeTree (message_data ev s flags mailbox0 mailbox p fp md tree thread) = tree"
  "m_fingerprint (message_data ev s flags mailbox0 mailbox p fp md tree thread) = fp"
  by (simp_all add: message_data_def Let_def)

lemma persist_Returned:
  assumes "persist ev s flags mailbox0 p fp md tree has w = Returned cb w'"
  shows "\<exists>pre thread.
     findOneAndUpdate (\<lambda>m. mb_id m = mb_id mailbox0) inc_counters (mailboxes w)
       = (Some pre, mailboxes w') \<and>
     getThreadId ev (p_subject p) tree = Inr thread \<and> create_error ev = None \<and>
     messages w' = messages w @ [message_data ev s flags mailbox0 pre p fp md tree thread] \<and>
     cb = Success True \<lparr>r_uidValidity = uidValidity pre, r_uid = uidNext pre, r_id = p_id p,
                  r_mailbox = mb_id pre, r_mailboxPath = mb_path pre,
                  r_size = p_size p, r_status = ''new''\<rparr> \<and>
     attachments w' = attachments w \<and> aliases w' = aliases w \<and> emails w' = emails w \<and>
     calls w' = calls w \<and>
     journal w' = journal w @ [\<lparr>j_ignore = (selected_mailbox s = Some (mb_id mailbox0)),
                             j_command = ''EXISTS'', j_uid = uidNext pre,
                             j_mailbox = mb_id pre, j_message = p_id p\<rparr>]"
proof -
  obtain r mbs where fu:
    "findOneAndUpdate (\<lambda>m. mb_id m = mb_id mailbox0) inc_counters (mailboxes w) = (r, mbs)"
    by (cases "findOneAndUpdate (\<lambda>m. mb_id m = mb_id mailbox0) inc_counters (mailboxes w)")
  from assms fu obtain pre where r: "r = Some pre"
    by (cases r) (simp_all add: persist_def)
  from assms fu r obtain thread where th: "getThreadId ev (p_subject p) tree = Inr thread"
    by (cases "getThreadId ev (p_subject p) tree") (simp_all add: persist_def Let_def)
  from assms fu r th have ce: "create_error ev = None"
    by (cases "create_error ev") (simp_all add: persist_def Let_def)
  let ?msg = "message_data ev s flags mailbox0 pre p fp md tree thread"
  let ?w2 = "ensure_thread thread (w\<lparr>mailboxes := mbs\<rparr>)"
  let ?w3 = "log_debug ''message created'' (?w2\<lparr>messages := messages ?w2 @ [?msg]\<rparr>)"
  from assms fu r th ce have n: "notify ev s pre p ?msg has tree md ?w3 = Returned cb w'"
    by (simp add: persist_def Let_def)
  have w3: "mailboxes ?w3 = mbs" "messages ?w3 = messages w @ [?msg]"
    "attachments ?w3 = attachments w" "aliases ?w3 = aliases w" "emails ?w3 = emails w"
    "calls ?w3 = calls w" "journal ?w3 = journal w"
    by (simp_all add: ensure_thread_def log_debug_def)
  from notify_Returned[OF n] w3 fu r th ce show ?thesis by simp
qed

lemma persist_Thrown:
  assumes "persist ev s flags mailbox0 p fp md tree has w = Thrown e h t m w'"
  shows "h = has \<and> t = Some tree \<and> attachments w' = attachments w \<and> aliases w' = aliases w \<and>
     emails w' = emails w \<and> calls w' = calls w \<and> journal w' = journal w"
proof -
  obtain r mbs where fu:
    "findOneAndUpdate (\<lambda>m. mb_id m = mb_id mailbox0) inc_counters (mailboxes w) = (r, mbs)"
    by (cases "findOneAndUpdate (\<lambda>m. mb_id m = mb_id mailbox0) inc_counters (mailboxes w)")
  show ?thesis
  proof (cases r)
    case None
    with assms fu show ?thesis by (auto simp: persist_def)
  next
    case (Some pre)
    note r = this
    show ?thesis
    proof (cases "getThreadId ev (p_subject p) tree")
      case (Inl e')
      with assms fu r show ?thesis by (auto simp: persist_def Let_def)
    next
      case (Inr thread)
      note th = this
      show ?thesis
      proof (cases "create_error ev")
        case (Some e')
        with assms fu r th show ?thesis
          by (auto simp: persist_def Let_def ensure_thread_def)
      next
        case None
        let ?msg = "message_data ev s flags mailbox0 pre p fp md tree thread"
        let ?w2 = "ensure_thread thread (w\<lparr>mailboxes := mbs\<rparr>)"
        let ?w3 = "log_debug ''message created'' (?w2\<lparr>messages := messages ?w2 @ [?msg]\<rparr>)"
        from assms fu r th None have n: "notify ev s pre p ?msg has tree md ?w3 = Thrown e h t m w'"
          by (simp add: persist_def Let_def)
        have w3: "attachments ?w3 = attachments w" "aliases ?w3 = aliases w"
          "emails ?w3 = emails w" "calls ?w3 = calls w" "journal ?w3 = journal w"
          by (simp_all add: ensure_thread_def log_debug_def)
        from notify_Thrown[OF n] w3 show ?thesis by simp
      qed
    qed
  qed
qed
lemma raw_truthy_length: "0 < raw_length raw \<Longrightarrow> raw_truthy raw"
  by (cases raw) auto

lemma ensure_thread_fields [simp]:
  "mailboxes (ensure_thread t w) = mailboxes w"
  "messages (ensure_thread t w) = messages w"
  "attachments (ensure_thread t w) = attachments w"
  "aliases (ensure_thread t w) = aliases w"
  "emails (ensure_thread t w) = emails w"
  "calls (ensure_thread t w) = calls w"
  "journal (ensure_thread t w) = journal w"
  by (simp_all add: ensure_thread_def)

lemma notify_step:
  "mailboxes (result_world (notify ev s mailbox p msg has tree md w)) = mailboxes w \<and>
   messages (result_world (notify ev s mailbox p msg has tree md w)) = messages w"
  by (cases "notify ev s mailbox p msg has tree md w")
     (auto dest: notify_Returned notify_Thrown)

lemma persist_step:
  assumes "result_world (persist ev s flags mailbox0 p fp md tree has w) = w'"
  shows "(mailboxes w' = mailboxes w \<and> messages w' = messages w) \<or>
     (\<exists>pre. findOneAndUpdate (\<lambda>m. mb_id m = mb_id mailbox0) inc_counters (mailboxes w)
              = (Some pre, mailboxes w') \<and>
        (messages w' = messages w \<or>
         (\<exists>msg. messages w' = messages w @ [msg] \<and> m_mailbox msg = mb_id mailbox0 \<and>
                m_uid msg = uidNext pre \<and> m_modseq msg = modifyIndex pre + 1)))"
proof -
  obtain r mbs where fu:
    "findOneAndUpdate (\<lambda>m. mb_id m = mb_id mailbox0) inc_counters (mailboxes w) = (r, mbs)"
    by (cases "findOneAndUpdate (\<lambda>m. mb_id m = mb_id mailbox0) inc_counters (mailboxes w)")
  show ?thesis
  proof (cases r)
    case None
    with assms fu show ?thesis by (auto simp: persist_def)
  next
    case (Some pre)
    note r = this
    show ?thesis
    proof (cases "getThreadId ev (p_subject p) tree")
      case (Inl e')
      with assms fu r show ?thesis by (auto simp: persist_def Let_def)
    next
      case (Inr thread)
      note th = this
      show ?thesis
      proof (cases "create_error ev")
        case (Some e')
        with assms fu r th show ?thesis
          by (auto simp: persist_def Let_def)
      next
        case None
        let ?msg = "message_data ev s flags mailbox0 pre p fp md tree thread"
        let ?w2 = "ensure_thread thread (w\<lparr>mailboxes := mbs\<rparr>)"
        let ?w3 = "log_debug ''message created'' (?w2\<lparr>messages := messages ?w2 @ [?msg]\<rparr>)"
        from assms fu r th None
        have n: "result_world (notify ev s pre p ?msg has tree md ?w3) = w'"
          by (simp add: persist_def Let_def)
        have w3: "mailboxes ?w3 = mbs" "messages ?w3 = messages w @ [?msg]"
          by (simp_all add: log_debug_def)
        from notify_step[of ev s pre p ?msg has tree md ?w3] n w3
        have "mailboxes w' = mbs" "messages w' = messages w @ [?msg]" by simp_all
        with fu r show ?thesis by simp
      qed
    qed
  qed
qed

lemma after_prepare_step:
  assumes "result_world (after_prepare ev s flags su mailbox0 p w) = w'"
  shows "(mailboxes w' = mailboxes w \<and> messages w' = messages w) \<or>
     (\<exists>pre. findOneAndUpdate (\<lambda>m. mb_id m = mb_id mailbox0) inc_counters (mailboxes w)
              = (Some pre, mailboxes w') \<and>
        (messages w' = messages w \<or>
         (\<exists>msg. messages w' = messages w @ [msg] \<and> m_mailbox msg = mb_id mailbox0 \<and>
                m_uid msg = uidNext pre \<and> m_modseq msg = modifyIndex pre + 1)))"
proof -
  let ?fp = "getFingerprint ev s (p_headers p) (body (p_mimeTree p))"
  let ?look = "(if checkForExisting s
            then findOne (\<lambda>m. m_fingerprint m = ?fp \<and> m_mailbox m = mb_id mailbox0)
                   (messages w)
            else None)"
  show ?thesis
  proof (cases ?look)
    case (Some ex)
    with assms show ?thesis by (auto simp: after_prepare_def Let_def)
  next
    case None
    note look = this
    show ?thesis
    proof (cases "getMaxQuota ev")
      case (Inl e)
      with assms look show ?thesis by (auto simp: after_prepare_def Let_def)
    next
      case (Inr maxq)
      note mq = this
      show ?thesis
      proof (cases "su + p_size p > maxq")
        case True
        with assms look mq show ?thesis by (auto simp: after_prepare_def Let_def)
      next
        case False
        note q = this
        let ?md = "getMaildata ev (p_mimeTree p)"
        show ?thesis
        proof (cases "storeNodeBodies ev ?md (p_mimeTree p)")
          case (StoreThrew e ids)
          with assms look mq q show ?thesis
            by (auto simp: after_prepare_def Let_def store_blobs_def)
        next
          case (Stored has amap)
          let ?w1 = "store_blobs (map_values amap) w"
          from assms look mq q Stored
          have "result_world (persist ev s flags mailbox0 p ?fp ?md
                  ((p_mimeTree p)\<lparr>attachmentMap := amap\<rparr>) has ?w1) = w'"
            by (simp add: after_prepare_def Let_def)
          from persist_step[OF this] show ?thesis by (simp add: store_blobs_def)
        qed
      qed
    qed
  qed
qed

lemma try_block_step:
  assumes "result_world (try_block ev path flags date raw s w) = w'"
  shows "(mailboxes w' = mailboxes w \<and> messages w' = messages w) \<or>
     (\<exists>k pre. findOneAndUpdate (\<lambda>m. mb_id m = k) inc_counters (mailboxes w)
              = (Some pre, mailboxes w') \<and>
        (messages w' = messages w \<or>
         (\<exists>msg. messages w' = messages w @ [msg] \<and> m_mailbox msg = k \<and>
                m_uid msg = uidNext pre \<and> m_modseq msg = modifyIndex pre + 1)))"
proof (cases "refreshSession ev")
  case (Some e)
  with assms show ?thesis by (auto simp: try_block_def)
next
  case None
  note rs = this
  show ?thesis
  proof (cases "isOverQuota ev")
    case (Inl e)
    with assms rs show ?thesis by (auto simp: try_block_def)
  next
    case (Inr q)
    obtain su over where q: "q = (su, over)" by (cases q)
    note oq = Inr[unfolded q]
    show ?thesis
    proof (cases over)
      case True
      with assms rs oq show ?thesis by (auto simp: try_block_def)
    next
      case False
      note ov = this
      show ?thesis
      proof (cases "findOne (\<lambda>m. mb_path m = path) (mailboxes w)")
        case None
        with assms rs oq ov show ?thesis by (auto simp: try_block_def)
      next
        case (Some mailbox0)
        obtain raw' w1 where g: "encryption_gate ev s flags raw w = (raw', w1)"
          by (cases "encryption_gate ev s flags raw w")
        from gate_frame[OF g] have fr: "mailboxes w1 = mailboxes w" "messages w1 = messages w"
          by simp_all
        show ?thesis
        proof (cases "prepareMessage ev flags date raw'")
          case (Inl e)
          with assms rs oq ov Some g fr show ?thesis by (auto simp: try_block_def)
        next
          case (Inr p)
          with assms rs oq ov Some g
          have "result_world (after_prepare ev s flags su mailbox0 p w1) = w'"
            by (simp add: try_block_def)
          from after_prepare_step[OF this] fr show ?thesis by auto
        qed
      qed
    qed
  qed
qed

lemma catch_block_frame:
  "catch_block ev e has t w = (cb, w') \<Longrightarrow>
     cb = Refined e \<and> mailboxes w' = mailboxes w \<and> messages w' = messages w \<and>
     journal w' = journal w \<and> threads w' = threads w \<and> aliases w' = aliases w \<and>
     emails w' = emails w \<and> calls w' = calls w"
  by (auto simp: catch_block_def Let_def log_fatal_def deleteMany_def split: option.splits if_splits)

lemma onAppend_step:
  assumes "wsp ev = None" and "snd (onAppend ev path flags date raw s w) = w'"
  shows "(mailboxes w' = mailboxes w \<and> messages w' = messages w) \<or>
     (\<exists>k pre. findOneAndUpdate (\<lambda>m. mb_id m = k) inc_counters (mailboxes w)
              = (Some pre, mailboxes w') \<and>
        (messages w' = messages w \<or>
         (\<exists>msg. messages w' = messages w @ [msg] \<and> m_mailbox msg = k \<and>
                m_uid msg = uidNext pre \<and> m_modseq msg = modifyIndex pre + 1)))"
proof -
  let ?w0 = "log_debug ''APPEND'' w"
  let ?r = "try_block ev path flags date raw s ?w0"
  have w0: "mailboxes ?w0 = mailboxes w" "messages ?w0 = messages w"
    by (simp_all add: log_debug_def)
  have "mailboxes w' = mailboxes (result_world ?r) \<and> messages w' = messages (result_world ?r)"
  proof (cases ?r)
    case (Returned cb w1)
    with assms show ?thesis by (simp add: onAppend_def Let_def)
  next
    case (Thrown e has t md w1)
    obtain cb w2 where c: "catch_block ev e has t w1 = (cb, w2)"
      by (cases "catch_block ev e has t w1")
    from catch_block_frame[OF c] Thrown assms c show ?thesis
      by (simp add: onAppend_def Let_def)
  qed
  moreover from try_block_step[of ev path flags date raw s ?w0 "result_world ?r"]
  have "(mailboxes (result_world ?r) = mailboxes ?w0 \<and> messages (result_world ?r) = messages ?w0) \<or>
     (\<exists>k pre. findOneAndUpdate (\<lambda>m. mb_id m = k) inc_counters (mailboxes ?w0)
              = (Some pre, mailboxes (result_world ?r)) \<and>
        (messages (result_world ?r) = messages ?w0 \<or>
         (\<exists>msg. messages (result_world ?r) = messages ?w0 @ [msg] \<and> m_mailbox msg = k \<and>
                m_uid msg = uidNext pre \<and> m_modseq msg = modifyIndex pre + 1)))"
    by simp
  ultimately show ?thesis using w0 by simp
qed

lemma mb_id_inc_counters [simp]: "mb_id (inc_counters m) = mb_id m"
  by (simp add: inc_counters_def)

lemma find_after_inc:
  "findOneAndUpdate (\<lambda>m. mb_id m = k0) inc_counters xs = (r, ys) \<Longrightarrow>
   find (\<lambda>m. mb_id m = k) ys =
     (if k = k0 then map_option inc_counters (find (\<lambda>m. mb_id m = k0) xs)
      else find (\<lambda>m. mb_id m = k) xs)"
proof (induction xs arbitrary: r ys)
  case Nil
  then show ?case by auto
next
  case (Cons a xs)
  show ?case
  proof (cases "mb_id a = k0")
    case True
    with Cons.prems show ?thesis by auto
  next
    case False
    with Cons.prems obtain zs where z: "findOneAndUpdate (\<lambda>m. mb_id m = k0) inc_counters xs = (r, zs)"
      "ys = a # zs" by (auto split: prod.splits)
    from Cons.IH[OF z(1)] z(2) False show ?thesis by auto
  qed
qed

lemma counters_after_inc:
  assumes "findOneAndUpdate (\<lambda>m. mb_id m = k0) inc_counters (mailboxes w) = (Some pre, mailboxes w')"
  shows "uidNext_of w k0 = uidNext pre" "modifyIndex_of w k0 = modifyIndex pre"
    "uidNext_of w' k = (if k = k0 then uidNext_of w k + 1 else uidNext_of w k)"
    "modifyIndex_of w' k = (if k = k0 then modifyIndex_of w k + 1 else modifyIndex_of w k)"
proof -
  from assms have f: "find (\<lambda>m. mb_id m = k0) (mailboxes w) = Some pre"
    using findOneAndUpdate_fst[of "\<lambda>m. mb_id m = k0" inc_counters "mailboxes w"] by simp
  then show "uidNext_of w k0 = uidNext pre" "modifyIndex_of w k0 = modifyIndex pre"
    by (simp_all add: uidNext_of_def modifyIndex_of_def findOne_def)
  from find_after_inc[OF assms, of k] f
  show "uidNext_of w' k = (if k = k0 then uidNext_of w k + 1 else uidNext_of w k)"
    "modifyIndex_of w' k = (if k = k0 then modifyIndex_of w k + 1 else modifyIndex_of w k)"
    by (simp_all add: uidNext_of_def modifyIndex_of_def findOne_def inc_counters_def)
qed

lemma allocation_ordered_refl: "allocation_ordered w w k"
  by (simp add: allocation_ordered_def allocated_def)

lemma allocation_ordered_step:
  assumes "wsp ev = None" and "snd (onAppend ev path flags date raw s w) = w'"
  shows "allocation_ordered w w' k"
proof -
  from onAppend_step[OF assms]
  consider (same) "mailboxes w' = mailboxes w" "messages w' = messages w"
    | (burnt) k0 pre where
        "findOneAndUpdate (\<lambda>m. mb_id m = k0) inc_counters (mailboxes w) = (Some pre, mailboxes w')"
        "messages w' = messages w"
    | (stored) k0 pre msg where
        "findOneAndUpdate (\<lambda>m. mb_id m = k0) inc_counters (mailboxes w) = (Some pre, mailboxes w')"
        "messages w' = messages w @ [msg]" "m_mailbox msg = k0"
        "m_uid msg = uidNext pre" "m_modseq msg = modifyIndex pre + 1"
    by blast
  then show ?thesis
  proof cases
    case same
    then show ?thesis
      by (simp add: allocation_ordered_def allocated_def uidNext_of_def modifyIndex_of_def)
  next
    case burnt
    from counters_after_inc[OF burnt(1)] burnt(2) show ?thesis
      by (simp add: allocation_ordered_def allocated_def)
  next
    case stored
    from counters_after_inc[OF stored(1)] stored(2-) show ?thesis
      by (simp add: allocation_ordered_def allocated_def)
  qed
qed

lemma allocated_append:
  assumes "take (length (messages w)) (messages w1) = messages w"
    and "take (length (messages w1)) (messages w2) = messages w1"
  shows "take (length (messages w)) (messages w2) = messages w"
    and "allocated w w2 k = allocated w w1 k @ allocated w1 w2 k"
proof -
  from assms(1) obtain n1 where n1: "messages w1 = messages w @ n1"
    by (metis append_take_drop_id)
  from assms(2) obtain n2 where n2: "messages w2 = messages w1 @ n2"
    by (metis append_take_drop_id)
  from n1 n2 show "take (length (messages w)) (messages w2) = messages w" by simp
  from n1 n2 show "allocated w w2 k = allocated w w1 k @ allocated w1 w2 k"
    by (simp add: allocated_def)
qed

lemma allocation_ordered_trans:
  assumes "allocation_ordered w w1 k" and "allocation_ordered w1 w2 k"
  shows "allocation_ordered w w2 k"
proof -
  from assms have p: "take (length (messages w)) (messages w1) = messages w"
    "take (length (messages w1)) (messages w2) = messages w1"
    by (simp_all add: allocation_ordered_def)
  note ap = allocated_append(1)[OF p] allocated_append(2)[OF p, of k]
  from assms ap show ?thesis
    unfolding allocation_ordered_def
    by (auto simp: sorted_wrt_append list_all_iff) (meson less_le_trans le_less_trans)+
qed

lemma appends_ordered:
  assumes "\<forall>rq\<in>set rqs. wsp (rq_env rq) = None"
  shows "allocation_ordered w (snd (appends rqs w)) k"
  using assms
proof (induction rqs arbitrary: w)
  case Nil
  then show ?case by (simp add: allocation_ordered_refl)
next
  case (Cons rq rqs)
  let ?w1 = "snd (onAppend (rq_env rq) (rq_path rq) (rq_flags rq) (rq_date rq) (rq_raw rq)
             (rq_session rq) w)"
  from Cons.prems have "wsp (rq_env rq) = None" by simp
  then have 1: "allocation_ordered w ?w1 k" by (rule allocation_ordered_step) simp
  from Cons.prems have 2: "allocation_ordered ?w1 (snd (appends rqs ?w1)) k"
    by (intro Cons.IH) simp
  have "snd (appends (rq # rqs) w) = snd (appends rqs ?w1)"
    by (simp split: prod.splits)
  with allocation_ordered_trans[OF 1 2] show ?case by simp
qed

lemma strict_sorted_distinct: "sorted_wrt (<) (xs :: nat list) \<Longrightarrow> distinct xs"
  by (induction xs) auto

lemma ex_two_appends:
  "map (\<lambda>m. (m_uid m, m_modseq m)) (allocated ex_world (snd (appends [ex_request, ex_request] ex_world)) 10) = [(5, 9), (6, 10)]"
  "uidNext_of (snd (appends [ex_request, ex_request] ex_world)) 10 = 7"
  "modifyIndex_of (snd (appends [ex_request, ex_request] ex_world)) 10 = 10"
  by (simp_all add: ex_request_def ex_defs pipe_defs Let_def uidNext_of_def allocated_def
      modifyIndex_of_def inc_counters_def message_data_def)

lemma after_prepare_Returned:
  assumes "after_prepare ev s flags su mailbox0 p w = Returned cb w'"
  shows
   "(checkForExisting s \<and> w' = w \<and>
     (\<exists>ex. findOne (\<lambda>m. m_fingerprint m = getFingerprint ev s (p_headers p) (body (p_mimeTree p)) \<and>
                         m_mailbox m = mb_id mailbox0) (messages w) = Some ex \<and>
          cb = Success True
            \<lparr>r_uidValidity = uidValidity mailbox0, r_uid = m_uid ex,
             r_id = m_id ex, r_mailbox = mb_id mailbox0,
             r_mailboxPath = mb_path mailbox0, r_size = m_size ex,
             r_status = ''new''\<rparr>)) \<or>
    ((checkForExisting s \<longrightarrow>
        findOne (\<lambda>m. m_fingerprint m = getFingerprint ev s (p_headers p) (body (p_mimeTree p)) \<and>
                         m_mailbox m = mb_id mailbox0) (messages w) = None) \<and>
     (\<exists>maxq has amap pre thread.
        getMaxQuota ev = Inr maxq \<and> su + p_size p \<le> maxq \<and>
        storeNodeBodies ev (getMaildata ev (p_mimeTree p)) (p_mimeTree p) = Stored has amap \<and>
        findOneAndUpdate (\<lambda>m. mb_id m = mb_id mailbox0) inc_counters (mailboxes w)
          = (Some pre, mailboxes w') \<and>
        messages w' = messages w @
          [message_data ev s flags mailbox0 pre p
             (getFingerprint ev s (p_headers p) (body (p_mimeTree p)))
             (getMaildata ev (p_mimeTree p)) ((p_mimeTree p)\<lparr>attachmentMap := amap\<rparr>) thread] \<and>
        cb = Success True \<lparr>r_uidValidity = uidValidity pre, r_uid = uidNext pre, r_id = p_id p,
                  r_mailbox = mb_id pre, r_mailboxPath = mb_path pre,
                  r_size = p_size p, r_status = ''new''\<rparr> \<and>
        attachments w' = attachments w + mset (map_values amap) \<and>
        aliases w' = aliases w \<and> emails w' = emails w \<and> calls w' = calls w \<and>
        journal w' = journal w @ [\<lparr>j_ignore = (selected_mailbox s = Some (mb_id mailbox0)),
                             j_command = ''EXISTS'', j_uid = uidNext pre,
                             j_mailbox = mb_id pre, j_message = p_id p\<rparr>]))"
proof -
  let ?fp = "getFingerprint ev s (p_headers p) (body (p_mimeTree p))"
  let ?look = "(if checkForExisting s
            then findOne (\<lambda>m. m_fingerprint m = ?fp \<and> m_mailbox m = mb_id mailbox0)
                   (messages w)
            else None)"
  show ?thesis
  proof (cases ?look)
    case (Some ex)
    with assms show ?thesis by (auto simp: after_prepare_def Let_def split: if_splits)
  next
    case None
    note look = this
    then have nl: "checkForExisting s \<longrightarrow>
        findOne (\<lambda>m. m_fingerprint m = ?fp \<and> m_mailbox m = mb_id mailbox0) (messages w) = None"
      by (simp split: if_splits)
    from assms look obtain maxq where mq: "getMaxQuota ev = Inr maxq"
      by (cases "getMaxQuota ev") (simp_all add: after_prepare_def Let_def)
    from assms look mq have q: "su + p_size p \<le> maxq"
      by (cases "su + p_size p > maxq") (simp_all add: after_prepare_def Let_def)
    let ?md = "getMaildata ev (p_mimeTree p)"
    from assms look mq q obtain has amap where
      st: "storeNodeBodies ev ?md (p_mimeTree p) = Stored has amap"
      by (cases "storeNodeBodies ev ?md (p_mimeTree p)") (simp_all add: after_prepare_def Let_def)
    let ?w1 = "store_blobs (map_values amap) w"
    from assms look mq q st
    have "persist ev s flags mailbox0 p ?fp ?md
                  ((p_mimeTree p)\<lparr>attachmentMap := amap\<rparr>) has ?w1 = Returned cb w'"
      by (simp add: after_prepare_def Let_def)
    from persist_Returned[OF this] nl mq q st show ?thesis
      by (simp add: store_blobs_def) blast
  qed
qed

lemma try_block_Returned:
  assumes "try_block ev path flags date raw s w = Returned cb w'"
  shows "\<exists>su mailbox0 raw' w1 p.
     refreshSession ev = None \<and> isOverQuota ev = Inr (su, False) \<and>
     findOne (\<lambda>m. mb_path m = path) (mailboxes w) = Some mailbox0 \<and>
     encryption_gate ev s flags raw w = (raw', w1) \<and>
     prepareMessage ev flags date raw' = Inr p \<and>
     after_prepare ev s flags su mailbox0 p w1 = Returned cb w'"
proof -
  from assms have rs: "refreshSession ev = None"
    by (cases "refreshSession ev") (simp_all add: try_block_def)
  from assms rs obtain su over where oq: "isOverQuota ev = Inr (su, over)"
    by (cases "isOverQuota ev") (auto simp: try_block_def)
  from assms rs oq have ov: "\<not> over"
    by (cases over) (simp_all add: try_block_def)
  from assms rs oq ov obtain mailbox0 where
    mb: "findOne (\<lambda>m. mb_path m = path) (mailboxes w) = Some mailbox0"
    by (cases "findOne (\<lambda>m. mb_path m = path) (mailboxes w)") (simp_all add: try_block_def)
  obtain raw' w1 where g: "encryption_gate ev s flags raw w = (raw', w1)"
    by (cases "encryption_gate ev s flags raw w")
  from assms rs oq ov mb g obtain p where p: "prepareMessage ev flags date raw' = Inr p"
    by (cases "prepareMessage ev flags date raw'") (simp_all add: try_block_def)
  from assms rs oq ov mb g p have "after_prepare ev s flags su mailbox0 p w1 = Returned cb w'"
    by (simp add: try_block_def)
  with rs oq ov mb g p show ?thesis by auto
qed

lemma onAppend_direct_Success:
  assumes "wsp ev = None" and "onAppend ev path flags date raw s w = (Success b resp, w')"
  shows "try_block ev path flags date raw s (log_debug ''APPEND'' w) = Returned (Success b resp) w'"
proof (cases "try_block ev path flags date raw s (log_debug ''APPEND'' w)")
  case (Returned cb w1)
  with assms show ?thesis by (simp add: onAppend_def Let_def)
next
  case (Thrown e has t md w1)
  with assms show ?thesis by (simp add: onAppend_def Let_def catch_block_def)
qed

lemma log_debug_fields [simp]:
  "mailboxes (log_debug x w) = mailboxes w"
  "messages (log_debug x w) = messages w"
  "attachments (log_debug x w) = attachments w"
  "aliases (log_debug x w) = aliases w"
  "emails (log_debug x w) = emails w"
  "calls (log_debug x w) = calls w"
  "journal (log_debug x w) = journal w"
  "threads (log_debug x w) = threads w"
  "storage_used (log_debug x w) = storage_used w"
  by (simp_all add: log_debug_def)

lemma onAppend_stored:
  assumes "wsp ev = None"
    and "onAppend ev path flags date raw s w = (Success b resp, w')"
    and "messages w' \<noteq> messages w"
  shows "\<exists>mailbox0 pre msg.
     findOne (\<lambda>m. mb_path m = path) (mailboxes w) = Some mailbox0 \<and>
     findOneAndUpdate (\<lambda>m. mb_id m = mb_id mailbox0) inc_counters (mailboxes w)
          = (Some pre, mailboxes w') \<and>
     messages w' = messages w @ [msg] \<and> m_mailbox msg = mb_id pre \<and>
     m_uid msg = uidNext pre \<and> m_modseq msg = modifyIndex pre + 1 \<and>
     m_flags msg = (if specialUse pre = Some Drafts then flags @ [Draft] else flags) \<and>
     b = True \<and> r_uid resp = uidNext pre \<and> r_mailbox resp = mb_id pre \<and>
     r_status resp = ''new''"
proof -
  let ?w0 = "log_debug ''APPEND'' w"
  from onAppend_direct_Success[OF assms(1,2)]
  have "try_block ev path flags date raw s ?w0 = Returned (Success b resp) w'" .
  from try_block_Returned[OF this] obtain su mailbox0 raw' w1 p where
    mb: "findOne (\<lambda>m. mb_path m = path) (mailboxes w) = Some mailbox0" and
    g: "encryption_gate ev s flags raw ?w0 = (raw', w1)" and
    ap: "after_prepare ev s flags su mailbox0 p w1 = Returned (Success b resp) w'"
    by auto
  from gate_frame[OF g] have fr: "mailboxes w1 = mailboxes w" "messages w1 = messages w"
    by simp_all
  from after_prepare_Returned[OF ap] assms(3) fr obtain pre msg where
    fu: "findOneAndUpdate (\<lambda>m. mb_id m = mb_id mailbox0) inc_counters (mailboxes w)
          = (Some pre, mailboxes w')" and
    ms: "messages w' = messages w @ [msg]" "m_mailbox msg = mb_id mailbox0"
      "m_uid msg = uidNext pre" "m_modseq msg = modifyIndex pre + 1"
      "m_flags msg = (if specialUse pre = Some Drafts then flags @ [Draft] else flags)" and
    cb: "Success b resp = Success True \<lparr>r_uidValidity = uidValidity pre, r_uid = uidNext pre,
                  r_id = p_id p, r_mailbox = mb_id pre, r_mailboxPath = mb_path pre,
                  r_size = p_size p, r_status = ''new''\<rparr>"
    by auto
  from findOneAndUpdate_Some[OF fu] have "mb_id pre = mb_id mailbox0" by auto
  with mb fu ms cb show ?thesis by auto
qed

lemma ex_append_inbox:
  "fst (onAppend ex_env ''INBOX'' [] 0 (RawString []) ex_session ex_world) =
     Success True \<lparr>r_uidValidity = 1, r_uid = 5, r_id = 77, r_mailbox = 10,
                   r_mailboxPath = ''INBOX'', r_size = 42, r_status = ''new''\<rparr>"
  "mailboxes (snd (onAppend ex_env ''INBOX'' [] 0 (RawString []) ex_session ex_world)) =
     [ex_inbox\<lparr>uidNext := 6, modifyIndex := 9\<rparr>, ex_drafts]"
  "messages (snd (onAppend ex_env ''INBOX'' [] 0 (RawString []) ex_session ex_world)) =
     [ex_message]"
  by (simp_all add: ex_defs pipe_defs Let_def inc_counters_def ex_message_def)

lemma ex_append_drafts:
  "fst (onAppend ex_env ''Drafts'' [Seen] 0 (RawString []) ex_session ex_world) =
     Success True \<lparr>r_uidValidity = 1, r_uid = 1, r_id = 77, r_mailbox = 11,
                   r_mailboxPath = ''Drafts'', r_size = 42, r_status = ''new''\<rparr>"
  "map m_flags (messages (snd (onAppend ex_env ''Drafts'' [Seen] 0 (RawString []) ex_session ex_world))) =
     [[Seen, Draft]]"
  "map m_draft (messages (snd (onAppend ex_env ''Drafts'' [Seen] 0 (RawString []) ex_session ex_world))) =
     [False]"
  by (simp_all add: ex_defs pipe_defs Let_def inc_counters_def message_data_def includes_flag_def
       Seen_def Draft_def)

lemma ex_two_deliveries:
  "fst (appends [ex_mx_request, ex_mx_request] ex_world) =
     [Success True \<lparr>r_uidValidity = 1, r_uid = 5, r_id = 77, r_mailbox = 10,
                     r_mailboxPath = ''INBOX'', r_size = 42, r_status = ''new''\<rparr>,
      Success True \<lparr>r_uidValidity = 1, r_uid = 5, r_id = 77, r_mailbox = 10,
                     r_mailboxPath = ''INBOX'', r_size = 42, r_status = ''new''\<rparr>]"
  "map m_uid (messages (snd (appends [ex_mx_request, ex_mx_request] ex_world))) = [5]"
  by (simp_all add: ex_mx_request_def ex_request_def ex_defs pipe_defs Let_def inc_counters_def
       message_data_def)

lemma ex_delivered_fields:
  "mailboxes ex_delivered = [ex_inbox\<lparr>uidNext := 6, modifyIndex := 9\<rparr>, ex_drafts]"
  "messages ex_delivered = [ex_message]"
  "length (journal ex_delivered) = 1"
  by (simp_all add: ex_delivered_def ex_mx_request_def ex_request_def ex_defs pipe_defs Let_def
        inc_counters_def ex_message_def message_data_def)

lemma persist_succeeds:
  assumes "find (\<lambda>m. mb_id m = mb_id mailbox0) (mailboxes w) = Some pre"
    and "getThreadId ev (p_subject p) tree = Inr thread"
    and "create_error ev = None" and "broadcast_error ev = None"
    and "addEntries_error ev = None"
  shows "\<exists>w'. persist ev s flags mailbox0 p fp md tree has w =
           Returned (Success True \<lparr>r_uidValidity = uidValidity pre, r_uid = uidNext pre,
                  r_id = p_id p, r_mailbox = mb_id pre, r_mailboxPath = mb_path pre,
                  r_size = p_size p, r_status = ''new''\<rparr>) w' \<and>
           messages w' = messages w @ [message_data ev s flags mailbox0 pre p fp md tree thread]"
proof -
  obtain r mbs where fu:
    "findOneAndUpdate (\<lambda>m. mb_id m = mb_id mailbox0) inc_counters (mailboxes w) = (r, mbs)"
    by (cases "findOneAndUpdate (\<lambda>m. mb_id m = mb_id mailbox0) inc_counters (mailboxes w)")
  with assms(1) findOneAndUpdate_fst[of "\<lambda>m. mb_id m = mb_id mailbox0" inc_counters "mailboxes w"]
  have r: "r = Some pre" by simp
  from fu r assms(2-) show ?thesis
    by (simp add: persist_def notify_def Let_def log_debug_def log_fatal_def split: sum.splits)
qed

lemma find_by_id_of_member:
  assumes "findOne (\<lambda>m. mb_path m = path) xs = Some (mailbox0 :: mailbox)"
  shows "\<exists>pre. find (\<lambda>m. mb_id m = mb_id mailbox0) xs = Some pre"
proof -
  from assms have "mailbox0 \<in> set xs"
    by (auto simp: findOne_def find_Some_iff)
  then have "find (\<lambda>m. mb_id m = mb_id mailbox0) xs \<noteq> None"
    by (auto simp: find_None_iff)
  then show ?thesis by auto
qed





lemma notify_agrees:
  assumes "agrees w w'"
  shows "same_result (notify ev s mailbox p msg has tree md w)
                     (notify ev s mailbox p msg has tree md w')"
  using assms
  by (auto simp: notify_def agrees_def Let_def log_fatal_def log_debug_def
      split: option.splits sum.splits)

lemma persist_agrees:
  assumes "agrees w w'"
  shows "same_result (persist ev s flags mailbox0 p fp md tree has w)
                     (persist ev s flags mailbox0 p fp md tree has w')"
proof -
  from assms have mb: "mailboxes w' = mailboxes w" by (simp add: agrees_def)
  obtain r mbs where fu:
    "findOneAndUpdate (\<lambda>m. mb_id m = mb_id mailbox0) inc_counters (mailboxes w) = (r, mbs)"
    by (cases "findOneAndUpdate (\<lambda>m. mb_id m = mb_id mailbox0) inc_counters (mailboxes w)")
  show ?thesis
  proof (cases r)
    case None
    with fu mb assms show ?thesis by (simp add: persist_def)
  next
    case (Some pre)
    note r = this
    show ?thesis
    proof (cases "getThreadId ev (p_subject p) tree")
      case (Inl e)
      with fu mb r assms show ?thesis by (simp add: persist_def Let_def agrees_def)
    next
      case (Inr thread)
      note th = this
      have a2: "agrees (ensure_thread thread (w\<lparr>mailboxes := mbs\<rparr>))
                       (ensure_thread thread (w'\<lparr>mailboxes := mbs\<rparr>))"
        using assms by (simp add: agrees_def ensure_thread_def)
      show ?thesis
      proof (cases "create_error ev")
        case (Some e)
        with fu mb r th a2 show ?thesis by (simp add: persist_def Let_def)
      next
        case None
        let ?msg = "message_data ev s flags mailbox0 pre p fp md tree thread"
        let ?u = "\<lambda>x. log_debug ''message created''
                   ((ensure_thread thread (x\<lparr>mailboxes := mbs\<rparr>))
                      \<lparr>messages := messages (ensure_thread thread (x\<lparr>mailboxes := mbs\<rparr>)) @ [?msg]\<rparr>)"
        from a2 have "agrees (?u w) (?u w')" by (simp add: agrees_def log_debug_def)
        from notify_agrees[OF this] fu mb r th None show ?thesis
          by (simp add: persist_def Let_def)
      qed
    qed
  qed
qed

lemma after_prepare_agrees:
  assumes "agrees w w'"
  shows "same_result (after_prepare ev s flags su mailbox0 p w)
                     (after_prepare ev s flags su mailbox0 p w')"
proof -
  from assms have ms: "messages w' = messages w" by (simp add: agrees_def)
  let ?fp = "getFingerprint ev s (p_headers p) (body (p_mimeTree p))"
  let ?look = "(if checkForExisting s
            then findOne (\<lambda>m. m_fingerprint m = ?fp \<and> m_mailbox m = mb_id mailbox0)
                   (messages w)
            else None)"
  show ?thesis
  proof (cases ?look)
    case (Some ex)
    with ms assms show ?thesis by (auto simp: after_prepare_def Let_def split: if_splits)
  next
    case None
    then have look: "checkForExisting s \<longrightarrow>
        findOne (\<lambda>m. m_fingerprint m = ?fp \<and> m_mailbox m = mb_id mailbox0) (messages w) = None"
      by (simp split: if_splits)
    show ?thesis
    proof (cases "getMaxQuota ev")
      case (Inl e)
      with look ms assms show ?thesis by (simp add: after_prepare_def Let_def)
    next
      case (Inr maxq)
      note mq = this
      show ?thesis
      proof (cases "su + p_size p > maxq")
        case True
        with look ms mq assms show ?thesis by (simp add: after_prepare_def Let_def)
      next
        case False
        note q = this
        let ?md = "getMaildata ev (p_mimeTree p)"
        show ?thesis
        proof (cases "storeNodeBodies ev ?md (p_mimeTree p)")
          case (StoreThrew e ids)
          with look ms mq q assms show ?thesis
            by (simp add: after_prepare_def Let_def store_blobs_def agrees_def)
        next
          case (Stored has amap)
          from assms have "agrees (store_blobs (map_values amap) w) (store_blobs (map_values amap) w')"
            by (simp add: agrees_def store_blobs_def)
          from persist_agrees[OF this] look ms mq q Stored show ?thesis
            by (simp add: after_prepare_def Let_def)
        qed
      qed
    qed
  qed
qed

lemma catch_block_agrees:
  assumes "agrees w w'"
  shows "fst (catch_block ev e h t w) = fst (catch_block ev e h t w') \<and>
         agrees (snd (catch_block ev e h t w)) (snd (catch_block ev e h t w'))"
  using assms
  by (auto simp: catch_block_def Let_def agrees_def log_fatal_def deleteMany_def
      split: option.splits)

lemma same_result_catch:
  assumes "same_result r r'"
  shows "fst (case r of Returned cb w1 \<Rightarrow> (cb, w1)
               | Thrown err has tree md w1 \<Rightarrow> catch_block ev err has tree w1) =
         fst (case r' of Returned cb w1 \<Rightarrow> (cb, w1)
               | Thrown err has tree md w1 \<Rightarrow> catch_block ev err has tree w1) \<and>
         agrees (snd (case r of Returned cb w1 \<Rightarrow> (cb, w1)
               | Thrown err has tree md w1 \<Rightarrow> catch_block ev err has tree w1))
                (snd (case r' of Returned cb w1 \<Rightarrow> (cb, w1)
               | Thrown err has tree md w1 \<Rightarrow> catch_block ev err has tree w1))"
proof (cases r)
  case (Returned cb w1)
  with assms show ?thesis by (cases r') simp_all
next
  case (Thrown e h t m w1)
  with assms obtain w1' where r': "r' = Thrown e h t m w1'" and a: "agrees w1 w1'"
    by (cases r') simp_all
  from catch_block_agrees[OF a, of ev e h t] Thrown r' show ?thesis by simp
qed

lemma index_text_encrypt [simp]:
  "index_text (ev\<lparr>encryptMessage := f\<rparr>) md = index_text ev md"
  by (simp add: index_text_def Let_def split: option.splits)

lemma message_data_encrypt [simp]:
  "message_data (ev\<lparr>encryptMessage := f\<rparr>) s flags mb0 mb p fp md tree th =
   message_data ev s flags mb0 mb p fp md tree th"
  by (simp add: message_data_def)

lemma notify_encrypt [simp]:
  "notify (ev\<lparr>encryptMessage := f\<rparr>) s mb p msg has tree md w = notify ev s mb p msg has tree md w"
  by (simp add: notify_def Let_def split: option.splits sum.splits)

lemma persist_encrypt [simp]:
  "persist (ev\<lparr>encryptMessage := f\<rparr>) s flags mb0 p fp md tree has w =
   persist ev s flags mb0 p fp md tree has w"
  by (simp add: persist_def Let_def split: option.splits sum.splits prod.splits)

lemma after_prepare_encrypt [simp]:
  "after_prepare (ev\<lparr>encryptMessage := f\<rparr>) s flags su mb0 p w =
   after_prepare ev s flags su mb0 p w"
  by (simp add: after_prepare_def Let_def
      split: option.splits sum.splits prod.splits store_outcome.splits)

lemma catch_block_encrypt [simp]:
  "catch_block (ev\<lparr>encryptMessage := f\<rparr>) e h t w = catch_block ev e h t w"
  by (simp add: catch_block_def Let_def split: option.splits)

lemma gate_agrees:
  "agrees w (snd (encryption_gate ev s flags raw w))"
  using gate_frame[of ev s flags raw w "fst (encryption_gate ev s flags raw w)"
                      "snd (encryption_gate ev s flags raw w)"]
  by (simp add: agrees_def)

lemma agrees_sym_trans:
  "agrees w w1 \<Longrightarrow> agrees w w2 \<Longrightarrow> agrees w1 w2"
  by (simp add: agrees_def)

lemma gate_on_failure:
  assumes "alias_public_key (user s) = Some key" and "encryptMessage ev key raw = Inl err"
  shows "fst (encryption_gate ev s flags raw w) = raw"
  using assms by (simp add: encryption_gate_def Let_def)

lemma gate_identity:
  "fst (encryption_gate (ev\<lparr>encryptMessage := (\<lambda>k r. Inr r)\<rparr>) s flags raw w) = raw"
  by (simp add: encryption_gate_def Let_def split: option.splits)

lemma try_block_failed_encryption:
  assumes "alias_public_key (user s) = Some key" and "encryptMessage ev key raw = Inl err"
  shows "same_result (try_block ev path flags date raw s w)
           (try_block (ev\<lparr>encryptMessage := (\<lambda>k r. Inr r)\<rparr>) path flags date raw s w)"
proof -
  let ?ev' = "ev\<lparr>encryptMessage := (\<lambda>k r. Inr r)\<rparr>"
  have refl: "agrees w w" by (simp add: agrees_def)
  show ?thesis
  proof (cases "refreshSession ev")
    case (Some e)
    then show ?thesis by (simp add: try_block_def refl)
  next
    case None
    note rs = this
    show ?thesis
    proof (cases "isOverQuota ev")
      case (Inl e)
      with rs show ?thesis by (simp add: try_block_def refl)
    next
      case (Inr q)
      obtain su over where q: "q = (su, over)" by (cases q)
      note oq = Inr[unfolded q]
      show ?thesis
      proof (cases over)
        case True
        with rs oq show ?thesis by (simp add: try_block_def refl)
      next
        case False
        note ov = this
        show ?thesis
        proof (cases "findOne (\<lambda>m. mb_path m = path) (mailboxes w)")
          case None
          with rs oq ov show ?thesis by (simp add: try_block_def refl)
        next
          case (Some mailbox0)
          obtain r1 w1 where g1: "encryption_gate ev s flags raw w = (r1, w1)"
            by (cases "encryption_gate ev s flags raw w")
          obtain r2 w2 where g2: "encryption_gate ?ev' s flags raw w = (r2, w2)"
            by (cases "encryption_gate ?ev' s flags raw w")
          from gate_on_failure[OF assms, of flags w] g1 have r1: "r1 = raw" by simp
          from gate_identity[of ev s flags raw w] g2 have r2: "r2 = raw" by simp
          from gate_agrees[of w ev s flags raw] g1 have a1: "agrees w w1" by simp
          from gate_agrees[of w ?ev' s flags raw] g2 have a2: "agrees w w2" by simp
          from agrees_sym_trans[OF a1 a2] have a: "agrees w1 w2" .
          show ?thesis
          proof (cases "prepareMessage ev flags date raw")
            case (Inl e)
            with rs oq ov Some g1 g2 r1 r2 a show ?thesis by (simp add: try_block_def)
          next
            case (Inr p)
            from after_prepare_agrees[OF a, of ev s flags su mailbox0 p]
              rs oq ov Some g1 g2 r1 r2 Inr show ?thesis by (simp add: try_block_def)
          qed
        qed
      qed
    qed
  qed
qed

lemma persist_channels:
  "aliases (result_world (persist ev s flags mailbox0 p fp md tree has w)) = aliases w \<and>
   emails (result_world (persist ev s flags mailbox0 p fp md tree has w)) = emails w \<and>
   calls (result_world (persist ev s flags mailbox0 p fp md tree has w)) = calls w"
proof (cases "persist ev s flags mailbox0 p fp md tree has w")
  case (Returned cb w')
  from persist_Returned[OF this] Returned show ?thesis by auto
next
  case (Thrown e h t m w')
  from persist_Thrown[OF this] Thrown show ?thesis by auto
qed

lemma after_prepare_channels:
  "aliases (result_world (after_prepare ev s flags su mailbox0 p w)) = aliases w \<and>
   emails (result_world (after_prepare ev s flags su mailbox0 p w)) = emails w \<and>
   calls (result_world (after_prepare ev s flags su mailbox0 p w)) = calls w"
proof -
  let ?fp = "getFingerprint ev s (p_headers p) (body (p_mimeTree p))"
  let ?look = "(if checkForExisting s
            then findOne (\<lambda>m. m_fingerprint m = ?fp \<and> m_mailbox m = mb_id mailbox0)
                   (messages w)
            else None)"
  show ?thesis
  proof (cases ?look)
    case (Some ex)
    then show ?thesis by (auto simp: after_prepare_def Let_def split: if_splits)
  next
    case None
    then have look: "checkForExisting s \<longrightarrow>
        findOne (\<lambda>m. m_fingerprint m = ?fp \<and> m_mailbox m = mb_id mailbox0) (messages w) = None"
      by (simp split: if_splits)
    show ?thesis
    proof (cases "getMaxQuota ev")
      case (Inl e)
      with look show ?thesis by (simp add: after_prepare_def Let_def)
    next
      case (Inr maxq)
      note mq = this
      show ?thesis
      proof (cases "su + p_size p > maxq")
        case True
        with look mq show ?thesis by (simp add: after_prepare_def Let_def)
      next
        case False
        note q = this
        let ?md = "getMaildata ev (p_mimeTree p)"
        show ?thesis
        proof (cases "storeNodeBodies ev ?md (p_mimeTree p)")
          case (StoreThrew e ids)
          with look mq q show ?thesis
            by (simp add: after_prepare_def Let_def store_blobs_def)
        next
          case (Stored has amap)
          from persist_channels[of ev s flags mailbox0 p ?fp ?md
                 "(p_mimeTree p)\<lparr>attachmentMap := amap\<rparr>" has "store_blobs (map_values amap) w"]
            look mq q Stored show ?thesis
            by (simp add: after_prepare_def Let_def store_blobs_def)
        qed
      qed
    qed
  qed
qed

lemma try_block_channels:
  "aliases (result_world (try_block ev path flags date raw s w)) =
     (if reaches_gate ev path w then aliases (snd (encryption_gate ev s flags raw w)) else aliases w) \<and>
   emails (result_world (try_block ev path flags date raw s w)) =
     (if reaches_gate ev path w then emails (snd (encryption_gate ev s flags raw w)) else emails w) \<and>
   calls (result_world (try_block ev path flags date raw s w)) =
     (if reaches_gate ev path w then calls (snd (encryption_gate ev s flags raw w)) else calls w)"
proof (cases "refreshSession ev")
  case (Some e)
  then show ?thesis by (simp add: try_block_def reaches_gate_def)
next
  case None
  note rs = this
  show ?thesis
  proof (cases "isOverQuota ev")
    case (Inl e)
    with rs show ?thesis by (simp add: try_block_def reaches_gate_def)
  next
    case (Inr q)
    obtain su over where q: "q = (su, over)" by (cases q)
    note oq = Inr[unfolded q]
    show ?thesis
    proof (cases over)
      case True
      with rs oq show ?thesis by (simp add: try_block_def reaches_gate_def)
    next
      case False
      note ov = this
      show ?thesis
      proof (cases "findOne (\<lambda>m. mb_path m = path) (mailboxes w)")
        case None
        with rs oq ov show ?thesis by (simp add: try_block_def reaches_gate_def)
      next
        case (Some mailbox0)
        with rs oq ov have rg: "reaches_gate ev path w" by (simp add: reaches_gate_def)
        obtain raw' w1 where g: "encryption_gate ev s flags raw w = (raw', w1)"
          by (cases "encryption_gate ev s flags raw w")
        show ?thesis
        proof (cases "prepareMessage ev flags date raw'")
          case (Inl e)
          with rs oq ov Some g rg show ?thesis by (simp add: try_block_def)
        next
          case (Inr p)
          from after_prepare_channels[of ev s flags su mailbox0 p w1]
            rs oq ov Some g rg Inr show ?thesis by (simp add: try_block_def)
        qed
      qed
    qed
  qed
qed

lemma reaches_gate_log [simp]:
  "reaches_gate ev path (log_debug x w) = reaches_gate ev path w"
  by (simp add: reaches_gate_def)

lemma onAppend_channels:
  assumes "wsp ev = None"
  shows
  "aliases (snd (onAppend ev path flags date raw s w)) =
     (if reaches_gate ev path w
      then aliases (snd (encryption_gate ev s flags raw (log_debug ''APPEND'' w))) else aliases w) \<and>
   emails (snd (onAppend ev path flags date raw s w)) =
     (if reaches_gate ev path w
      then emails (snd (encryption_gate ev s flags raw (log_debug ''APPEND'' w))) else emails w) \<and>
   calls (snd (onAppend ev path flags date raw s w)) =
     (if reaches_gate ev path w
      then calls (snd (encryption_gate ev s flags raw (log_debug ''APPEND'' w))) else calls w)"
proof -
  let ?w0 = "log_debug ''APPEND'' w"
  let ?r = "try_block ev path flags date raw s ?w0"
  have "aliases (snd (onAppend ev path flags date raw s w)) = aliases (result_world ?r) \<and>
        emails (snd (onAppend ev path flags date raw s w)) = emails (result_world ?r) \<and>
        calls (snd (onAppend ev path flags date raw s w)) = calls (result_world ?r)"
  proof (cases ?r)
    case (Returned cb w1)
    with assms show ?thesis by (simp add: onAppend_def Let_def)
  next
    case (Thrown e has t md w1)
    obtain cb w2 where c: "catch_block ev e has t w1 = (cb, w2)"
      by (cases "catch_block ev e has t w1")
    from catch_block_frame[OF c] Thrown assms c show ?thesis
      by (simp add: onAppend_def Let_def)
  qed
  with try_block_channels[of ev path flags date raw s ?w0] show ?thesis by simp
qed

lemma gate_calls:
  "calls (snd (encryption_gate ev s flags raw w)) =
     (case alias_public_key (user s) of
        None \<Rightarrow> calls w
      | Some key \<Rightarrow>
          if \<not> includes_flag flags Draft \<and> encryption_configured s
          then calls w @ [EncryptMessage key raw] else calls w)"
  by (auto simp: encryption_gate_def encryption_configured_def Let_def unset_pgp_error_def
        alert_owner_def log_fatal_def split: option.splits sum.splits prod.splits)

lemma configured_key:
  "encryption_configured s \<Longrightarrow> \<exists>key. alias_public_key (user s) = Some key"
  by (cases "alias_public_key (user s)") (simp_all add: encryption_configured_def)

lemmas gate_defs = alert_owner_def unset_pgp_error_def same_alias_def hour_def
  encryption_configured_def includes_flag_def Draft_def

lemma ex_bad_key_append:
  "fst (onAppend ex_bad_key_env ''INBOX'' [] 0 (RawString []) ex_pgp_session ex_world) =
     Success True \<lparr>r_uidValidity = 1, r_uid = 5, r_id = 77, r_mailbox = 10,
                   r_mailboxPath = ''INBOX'', r_size = 42, r_status = ''new''\<rparr>"
  "calls (snd (onAppend ex_bad_key_env ''INBOX'' [] 0 (RawString []) ex_pgp_session ex_world)) =
     [EncryptMessage ''KEY'' (RawString [])]"
  "map m_mimeTree (messages (snd (onAppend ex_bad_key_env ''INBOX'' [] 0 (RawString [])
      ex_pgp_session ex_world))) = [ex_tree\<lparr>attachmentMap := Some [(''1'', 900)]\<rparr>]"
  "map e_to (emails (snd (onAppend ex_bad_key_env ''INBOX'' [] 0 (RawString [])
      ex_pgp_session ex_world))) = [''owner@example.com'']"
  by (simp_all add: ex_bad_key_env_def ex_defs pipe_defs gate_defs Let_def inc_counters_def
       message_data_def)

lemma findOneAndUpdate_none:
  "\<forall>x\<in>set xs. \<not> P x \<Longrightarrow> findOneAndUpdate P f xs = (None, xs)"
  by (induction xs) auto

lemma findOneAndUpdate_map:
  "(\<And>x. g (f x) = g x) \<Longrightarrow> map g (snd (findOneAndUpdate P f xs)) = map g xs"
  by (induction xs) (auto split: prod.splits)

lemma findOneAndUpdate_unique:
  assumes "distinct (map a_id xs)" and "findOneAndUpdate P f xs = (Some al, ys)"
    and "\<And>x. a_id (f x) = a_id x" and "a \<in> set ys" and "a_id a = a_id al"
  shows "a = f al"
proof -
  from findOneAndUpdate_Some[OF assms(2)] obtain i where
    i: "i < length xs" "xs ! i = al" "ys = xs[i := f al]" by blast
  from assms(4) i(3) obtain j where j: "j < length xs" "a = (xs[i := f al]) ! j"
    by (auto simp: in_set_conv_nth)
  show ?thesis
  proof (cases "j = i")
    case True
    with j i show ?thesis by simp
  next
    case False
    with j i have "a = xs ! j" by simp
    with assms(5) i(2) have e: "a_id (xs ! j) = a_id (xs ! i)" by simp
    from nth_eq_iff_index_eq[OF assms(1), of j i] i(1) j(1) e have "j = i" by simp
    with False show ?thesis by simp
  qed
qed

lemma alert_owner_ids:
  "map a_id (aliases (alert_owner ev s err w)) = map a_id (aliases w)"
proof -
  have m: "\<And>P f xs. (\<And>x. a_id (f x) = a_id (x::alias_doc)) \<Longrightarrow>
              map a_id (snd (findOneAndUpdate P f xs)) = map a_id xs"
    by (rule findOneAndUpdate_map)
  obtain r as where fu: "findOneAndUpdate
               (\<lambda>a. same_alias s a \<and>
                  (case pgp_error_sent_at a of None \<Rightarrow> True | Some t \<Rightarrow> t \<le> one_day_ago ev))
               (\<lambda>a. a\<lparr>pgp_error_sent_at := Some (now ev)\<rparr>) (aliases w) = (r, as)"
    by (cases "findOneAndUpdate
               (\<lambda>a. same_alias s a \<and>
                  (case pgp_error_sent_at a of None \<Rightarrow> True | Some t \<Rightarrow> t \<le> one_day_ago ev))
               (\<lambda>a. a\<lparr>pgp_error_sent_at := Some (now ev)\<rparr>) (aliases w)")
  have as: "map a_id as = map a_id (aliases w)"
    using m[of "\<lambda>a. a\<lparr>pgp_error_sent_at := Some (now ev)\<rparr>" _ "aliases w"] fu
    by (metis alias_doc.select_convs(1) alias_doc.surjective alias_doc.update_convs(3) snd_conv)
  show ?thesis
    unfolding alert_owner_def using fu as
    by (auto simp: Let_def log_fatal_def m split: option.splits)
qed

lemma alert_owner_emails_le:
  "length (emails (alert_owner ev s err w)) \<le> length (emails w) + 1"
  by (auto simp: alert_owner_def Let_def log_fatal_def split: option.splits prod.splits)

lemma alert_owner_throttled:
  assumes "alert_fresh (alias_id (user s)) (domain_id (user s)) lo w" and "one_day_ago ev < lo"
  shows "aliases (alert_owner ev s err w) = aliases w \<and> emails (alert_owner ev s err w) = emails w"
proof -
  have "\<forall>a\<in>set (aliases w). \<not> (same_alias s a \<and>
                  (case pgp_error_sent_at a of None \<Rightarrow> True | Some t \<Rightarrow> t \<le> one_day_ago ev))"
    using assms by (auto simp: alert_fresh_def list_all_iff same_alias_def split: option.splits)
  from findOneAndUpdate_none[OF this] show ?thesis
    by (simp add: alert_owner_def log_fatal_def split: option.splits)
qed

lemma alert_owner_sets_fresh:
  assumes d: "distinct (map a_id (aliases w))"
    and lo: "lo \<le> now ev" "now ev \<le> sent_at ev"
    and ch: "emails (alert_owner ev s err w) \<noteq> emails w"
  shows "alert_fresh (alias_id (user s)) (domain_id (user s)) lo (alert_owner ev s err w)"
proof -
  let ?P = "\<lambda>a. same_alias s a \<and>
                  (case pgp_error_sent_at a of None \<Rightarrow> True | Some t \<Rightarrow> t \<le> one_day_ago ev)"
  let ?f = "\<lambda>a::alias_doc. a\<lparr>pgp_error_sent_at := Some (now ev)\<rparr>"
  obtain r as where fu: "findOneAndUpdate ?P ?f (aliases w) = (r, as)"
    by (cases "findOneAndUpdate ?P ?f (aliases w)")
  from ch have e2: "aliases_error ev 2 = None"
    by (cases "aliases_error ev 2") (simp_all add: alert_owner_def log_fatal_def)
  from ch e2 fu obtain al where r: "r = Some al"
    by (cases r) (simp_all add: alert_owner_def)
  from ch e2 fu r have em: "email ev = None"
    by (cases "email ev") (auto simp: alert_owner_def Let_def log_fatal_def split: option.splits)
  from findOneAndUpdate_Some[OF fu[unfolded r]] have al: "same_alias s al" by auto
  have das: "distinct (map a_id as)"
    using findOneAndUpdate_map[of a_id ?f ?P "aliases w"] fu d by simp
  have in_as: "a = ?f al" if "a \<in> set as" "a_id a = a_id al" for a
    using findOneAndUpdate_unique[OF d fu[unfolded r] _ that] by simp
  let ?Q = "\<lambda>a. a_id a = a_id al"
  let ?g = "\<lambda>a::alias_doc. a\<lparr>pgp_error_sent_at := Some (sent_at ev)\<rparr>"
  have stamped: "\<exists>t. pgp_error_sent_at a = Some t \<and> lo \<le> t"
    if a: "a \<in> set (aliases (alert_owner ev s err w))" and ida: "a_id a = a_id al" for a
  proof (cases "aliases_error ev 3")
    case (Some e)
    with e2 fu r em a have "a \<in> set as"
      by (simp add: alert_owner_def Let_def log_fatal_def)
    from in_as[OF this ida] lo show ?thesis by simp
  next
    case None
    obtain r' zs where fu': "findOneAndUpdate ?Q ?g as = (r', zs)"
      by (cases "findOneAndUpdate ?Q ?g as")
    from None e2 fu r em a fu' have az: "a \<in> set zs"
      by (simp add: alert_owner_def Let_def)
    show ?thesis
    proof (cases r')
      case None
      with findOneAndUpdate_None[OF fu'[unfolded None]] az have "a \<in> set as" by simp
      from in_as[OF this ida] lo show ?thesis by simp
    next
      case (Some al')
      from findOneAndUpdate_Some[OF fu'[unfolded Some]] have "a_id al' = a_id al" by auto
      with ida have "a_id a = a_id al'" by simp
      from findOneAndUpdate_unique[OF das fu'[unfolded Some] _ az this] lo show ?thesis by simp
    qed
  qed
  show ?thesis
    unfolding alert_fresh_def list_all_iff
  proof (intro ballI impI)
    fix a assume "a \<in> set (aliases (alert_owner ev s err w))"
      and "a_id a = alias_id (user s) \<and> a_domain a = domain_id (user s)"
    with al stamped[of a] show "case pgp_error_sent_at a of None \<Rightarrow> False | Some t \<Rightarrow> lo \<le> t"
      by (auto simp: same_alias_def)
  qed
qed

lemma unset_pgp_error_channels:
  "map a_id (aliases (unset_pgp_error ev s w)) = map a_id (aliases w) \<and>
   emails (unset_pgp_error ev s w) = emails w"
proof -
  have "map a_id (snd (findOneAndUpdate P (\<lambda>a::alias_doc. a\<lparr>pgp_error_sent_at := None\<rparr>) xs))
          = map a_id xs" for P xs
    by (rule findOneAndUpdate_map) simp
  then show ?thesis
    by (simp add: unset_pgp_error_def log_fatal_def split: option.splits)
qed

lemma alert_fresh_owner_docs:
  "alert_fresh aid did lo w =
     list_all (\<lambda>a. case pgp_error_sent_at a of None \<Rightarrow> False | Some t \<Rightarrow> lo \<le> t)
       (owner_docs aid did w)"
  by (auto simp: alert_fresh_def owner_docs_def list_all_iff)

lemma alert_fresh_cong:
  "owner_docs aid did w' = owner_docs aid did w \<Longrightarrow>
   alert_fresh aid did lo w' = alert_fresh aid did lo w"
  by (simp add: alert_fresh_owner_docs)

lemma alert_fresh_mono:
  "alert_fresh aid did lo w \<Longrightarrow> lo' \<le> lo \<Longrightarrow> alert_fresh aid did lo' w"
  by (auto simp: alert_fresh_def list_all_iff split: option.splits)

lemma owner_docs_aliases:
  "aliases w' = aliases w \<Longrightarrow> owner_docs aid did w' = owner_docs aid did w"
  by (simp add: owner_docs_def)

lemma findOneAndUpdate_filter:
  assumes "\<forall>x\<in>set xs. P x \<longrightarrow> \<not> K x" and "\<And>x. K (f x) = K x"
  shows "filter K (snd (findOneAndUpdate P f xs)) = filter K xs"
  using assms(1)
proof (induction xs)
  case Nil
  then show ?case by simp
next
  case (Cons a xs)
  then show ?case using assms(2) by (auto split: prod.splits)
qed

lemma unset_pgp_error_other:
  assumes "\<not> of_owner aid did s"
  shows "owner_docs aid did (unset_pgp_error ev s w) = owner_docs aid did w"
proof -
  let ?K = "\<lambda>a. a_id a = aid \<and> a_domain a = did"
  have "filter ?K (snd (findOneAndUpdate
               (\<lambda>a. same_alias s a \<and>
                  (case pgp_error_sent_at a of None \<Rightarrow> False | Some t \<Rightarrow> t \<le> now ev - hour))
               (\<lambda>a. a\<lparr>pgp_error_sent_at := None\<rparr>) (aliases w))) = filter ?K (aliases w)"
    using assms by (intro findOneAndUpdate_filter) (auto simp: same_alias_def of_owner_def)
  then show ?thesis
    by (simp add: unset_pgp_error_def owner_docs_def log_fatal_def split: option.splits)
qed

lemma unset_pgp_error_quiet:
  assumes "alert_fresh (alias_id (user s)) (domain_id (user s)) lo w" and "now ev - hour < lo"
  shows "aliases (unset_pgp_error ev s w) = aliases w"
proof -
  have "\<forall>a\<in>set (aliases w). \<not> (same_alias s a \<and>
                  (case pgp_error_sent_at a of None \<Rightarrow> False | Some t \<Rightarrow> t \<le> now ev - hour))"
    using assms by (auto simp: alert_fresh_def list_all_iff same_alias_def split: option.splits)
  from findOneAndUpdate_none[OF this] show ?thesis
    by (simp add: unset_pgp_error_def log_fatal_def split: option.splits)
qed

lemma alert_owner_other:
  assumes no: "\<not> of_owner aid did s" and d: "distinct (map a_id (aliases w))"
  shows "owner_docs aid did (alert_owner ev s err w) = owner_docs aid did w"
proof -
  let ?K = "\<lambda>a. a_id a = aid \<and> a_domain a = did"
  let ?P = "\<lambda>a. same_alias s a \<and>
                  (case pgp_error_sent_at a of None \<Rightarrow> True | Some t \<Rightarrow> t \<le> one_day_ago ev)"
  let ?f = "\<lambda>a::alias_doc. a\<lparr>pgp_error_sent_at := Some (now ev)\<rparr>"
  have nk: "same_alias s a \<Longrightarrow> \<not> ?K a" for a
    using no by (auto simp: same_alias_def of_owner_def)
  obtain r as where fu: "findOneAndUpdate ?P ?f (aliases w) = (r, as)"
    by (cases "findOneAndUpdate ?P ?f (aliases w)")
  have fas: "filter ?K as = filter ?K (aliases w)"
    using findOneAndUpdate_filter[of "aliases w" ?P ?K ?f] fu nk by auto
  have das: "distinct (map a_id as)"
    using findOneAndUpdate_map[of a_id ?f ?P "aliases w"] fu d by simp
  show ?thesis
  proof (cases "aliases_error ev 2")
    case (Some e)
    then show ?thesis by (simp add: alert_owner_def log_fatal_def owner_docs_def)
  next
    case None
    note e2 = this
    show ?thesis
    proof (cases r)
      case None
      with e2 fu show ?thesis by (simp add: alert_owner_def)
    next
      case (Some al)
      note r = this
      from findOneAndUpdate_Some[OF fu[unfolded r]] have al: "same_alias s al" by auto
      show ?thesis
      proof (cases "email ev")
        case None
        note em = this
        show ?thesis
        proof (cases "aliases_error ev 3")
          case (Some e)
          with e2 fu r em fas show ?thesis
            by (simp add: alert_owner_def Let_def log_fatal_def owner_docs_def)
        next
          case None
          let ?Q = "\<lambda>a. a_id a = a_id al"
          let ?g = "\<lambda>a::alias_doc. a\<lparr>pgp_error_sent_at := Some (sent_at ev)\<rparr>"
          have "\<forall>x\<in>set as. ?Q x \<longrightarrow> \<not> ?K x"
          proof (intro ballI impI)
            fix x assume "x \<in> set as" "a_id x = a_id al"
            from findOneAndUpdate_unique[OF d fu[unfolded r] _ this] have "x = ?f al" by simp
            with nk[OF al] show "\<not> ?K x" by simp
          qed
          then have "filter ?K (snd (findOneAndUpdate ?Q ?g as)) = filter ?K as"
            by (intro findOneAndUpdate_filter) simp_all
          with None e2 fu r em fas show ?thesis
            by (simp add: alert_owner_def Let_def owner_docs_def)
        qed
      next
        case (Some e)
        note em = this
        show ?thesis
        proof (cases "aliases_error ev 4")
          case (Some e')
          with e2 fu r em fas show ?thesis
            by (simp add: alert_owner_def Let_def log_fatal_def owner_docs_def)
        next
          case None
          have "filter ?K (snd (findOneAndUpdate
                  (\<lambda>a. same_alias s a \<and> pgp_error_sent_at a = Some (now ev))
                  (\<lambda>a. a\<lparr>pgp_error_sent_at := None\<rparr>) as)) = filter ?K as"
            using nk by (intro findOneAndUpdate_filter) auto
          with None e2 fu r em fas show ?thesis
            by (simp add: alert_owner_def Let_def log_fatal_def owner_docs_def)
        qed
      qed
    qed
  qed
qed

lemma gate_world_cases:
  "\<exists>w0. aliases w0 = aliases w \<and> emails w0 = emails w \<and>
     (snd (encryption_gate ev s flags raw w) = w0 \<or>
      (encrypts ev s flags raw \<and>
         snd (encryption_gate ev s flags raw w) = unset_pgp_error ev s w0) \<or>
      (\<exists>err. snd (encryption_gate ev s flags raw w) = alert_owner ev s err w0))"
proof (cases "alias_public_key (user s)")
  case None
  then show ?thesis by (intro exI[of _ w]) (simp add: encryption_gate_def)
next
  case (Some key)
  show ?thesis
  proof (cases "\<not> includes_flag flags Draft \<and> alias_has_pgp (user s) \<and> key \<noteq> []")
    case False
    with Some show ?thesis by (intro exI[of _ w]) (auto simp: encryption_gate_def)
  next
    case True
    let ?w1 = "w\<lparr>calls := calls w @ [EncryptMessage key raw]\<rparr>"
    show ?thesis
    proof (cases "encryptMessage ev key raw")
      case (Inr raw')
      with Some True show ?thesis
        by (intro exI[of _ ?w1]) (auto simp: encryption_gate_def Let_def encrypts_def)
    next
      case (Inl err)
      with Some True show ?thesis
        by (intro exI[of _ "log_fatal err ?w1"])
           (auto simp: encryption_gate_def Let_def log_fatal_def)
    qed
  qed
qed

lemma gate_step:
  fixes ev s flags raw w
  defines "w1 \<equiv> snd (encryption_gate ev s flags raw w)"
  shows "map a_id (aliases w1) = map a_id (aliases w)"
    and "length (emails w1) \<le> length (emails w) + 1"
    and "distinct (map a_id (aliases w)) \<Longrightarrow> lo \<le> now ev \<Longrightarrow> now ev \<le> sent_at ev \<Longrightarrow>
         emails w1 \<noteq> emails w \<Longrightarrow>
         alert_fresh (alias_id (user s)) (domain_id (user s)) lo w1"
    and "\<not> of_owner aid did s \<Longrightarrow> distinct (map a_id (aliases w)) \<Longrightarrow>
         owner_docs aid did w1 = owner_docs aid did w"
    and "alert_fresh (alias_id (user s)) (domain_id (user s)) lo w \<Longrightarrow> one_day_ago ev < lo \<Longrightarrow>
         emails w1 = emails w"
    and "alert_fresh (alias_id (user s)) (domain_id (user s)) lo w \<Longrightarrow> one_day_ago ev < lo \<Longrightarrow>
         (encrypts ev s flags raw \<Longrightarrow>
            alert_fresh (alias_id (user s)) (domain_id (user s)) (now ev - hour + 1) w) \<Longrightarrow>
         aliases w1 = aliases w"
proof -
  from gate_world_cases[of w ev s flags raw] obtain w0 where
    w0: "aliases w0 = aliases w" "emails w0 = emails w" and
    c: "w1 = w0 \<or> (encrypts ev s flags raw \<and> w1 = unset_pgp_error ev s w0) \<or>
      (\<exists>err. w1 = alert_owner ev s err w0)"
    unfolding w1_def by blast
  have fr0: "alert_fresh a d l w0 = alert_fresh a d l w" for a d l
    using w0 by (simp add: alert_fresh_def)
  show "map a_id (aliases w1) = map a_id (aliases w)"
    using c w0 unset_pgp_error_channels[of ev s w0] alert_owner_ids[of ev s _ w0] by auto
  show "length (emails w1) \<le> length (emails w) + 1"
    using c w0 unset_pgp_error_channels[of ev s w0] alert_owner_emails_le[of ev s _ w0] by auto
  show "alert_fresh (alias_id (user s)) (domain_id (user s)) lo w1"
    if d: "distinct (map a_id (aliases w))" and lo: "lo \<le> now ev" "now ev \<le> sent_at ev"
      and ch: "emails w1 \<noteq> emails w"
  proof -
    from ch c w0 unset_pgp_error_channels[of ev s w0]
    obtain err where e: "w1 = alert_owner ev s err w0" by auto
    from d w0 have d0: "distinct (map a_id (aliases w0))" by simp
    from ch e w0 have "emails (alert_owner ev s err w0) \<noteq> emails w0" by simp
    from alert_owner_sets_fresh[OF d0 lo this] e show ?thesis by simp
  qed
  show "owner_docs aid did w1 = owner_docs aid did w"
    if no: "\<not> of_owner aid did s" and d: "distinct (map a_id (aliases w))"
  proof -
    from d w0 have d0: "distinct (map a_id (aliases w0))" by simp
    have o0: "owner_docs aid did w0 = owner_docs aid did w"
      using w0 by (simp add: owner_docs_def)
    from c o0 unset_pgp_error_other[OF no, of ev w0] alert_owner_other[OF no d0, of ev]
    show ?thesis by auto
  qed
  show "emails w1 = emails w"
    if f: "alert_fresh (alias_id (user s)) (domain_id (user s)) lo w" and l: "one_day_ago ev < lo"
  proof -
    from f fr0 have f0: "alert_fresh (alias_id (user s)) (domain_id (user s)) lo w0" by simp
    from c w0 unset_pgp_error_channels[of ev s w0] alert_owner_throttled[OF f0 l]
    show ?thesis by auto
  qed
  show "aliases w1 = aliases w"
    if f: "alert_fresh (alias_id (user s)) (domain_id (user s)) lo w" and l: "one_day_ago ev < lo"
      and h: "encrypts ev s flags raw \<Longrightarrow>
            alert_fresh (alias_id (user s)) (domain_id (user s)) (now ev - hour + 1) w"
  proof -
    from f fr0 have f0: "alert_fresh (alias_id (user s)) (domain_id (user s)) lo w0" by simp
    have u: "aliases (unset_pgp_error ev s w0) = aliases w0" if "encrypts ev s flags raw"
    proof -
      from h[OF that] fr0
      have "alert_fresh (alias_id (user s)) (domain_id (user s)) (now ev - hour + 1) w0" by simp
      then show ?thesis by (rule unset_pgp_error_quiet) simp
    qed
    from c w0 u alert_owner_throttled[OF f0 l] show ?thesis by auto
  qed
qed

lemma onAppend_alert_step:
  fixes ev path flags date raw s w
  defines "w1 \<equiv> snd (onAppend ev path flags date raw s w)"
  assumes direct: "wsp ev = None"
  shows "map a_id (aliases w1) = map a_id (aliases w)"
    and "length (emails w1) \<le> length (emails w) + 1"
    and "distinct (map a_id (aliases w)) \<Longrightarrow> lo \<le> now ev \<Longrightarrow> now ev \<le> sent_at ev \<Longrightarrow>
         emails w1 \<noteq> emails w \<Longrightarrow>
         alert_fresh (alias_id (user s)) (domain_id (user s)) lo w1"
    and "\<not> of_owner aid did s \<Longrightarrow> distinct (map a_id (aliases w)) \<Longrightarrow>
         owner_docs aid did w1 = owner_docs aid did w"
    and "alert_fresh (alias_id (user s)) (domain_id (user s)) lo w \<Longrightarrow> one_day_ago ev < lo \<Longrightarrow>
         emails w1 = emails w"
    and "alert_fresh (alias_id (user s)) (domain_id (user s)) lo w \<Longrightarrow> one_day_ago ev < lo \<Longrightarrow>
         (encrypts ev s flags raw \<Longrightarrow>
            alert_fresh (alias_id (user s)) (domain_id (user s)) (now ev - hour + 1) w) \<Longrightarrow>
         aliases w1 = aliases w"
proof -
  let ?w0 = "log_debug ''APPEND'' w"
  let ?g = "snd (encryption_gate ev s flags raw ?w0)"
  note ch = onAppend_channels[OF direct, of path flags date raw s w, folded w1_def]
  have w0: "aliases ?w0 = aliases w" "emails ?w0 = emails w" by simp_all
  have fr: "alert_fresh a d l ?w0 = alert_fresh a d l w" for a d l
    by (simp add: alert_fresh_def)
  have od: "owner_docs a d ?w0 = owner_docs a d w" for a d
    by (simp add: owner_docs_def)
  show "map a_id (aliases w1) = map a_id (aliases w)"
    using ch gate_step(1)[of ev s flags raw ?w0] w0 by (simp split: if_splits)
  show "length (emails w1) \<le> length (emails w) + 1"
    using ch gate_step(2)[of ev s flags raw ?w0] w0 by (simp split: if_splits)
  show "alert_fresh (alias_id (user s)) (domain_id (user s)) lo w1"
    if d: "distinct (map a_id (aliases w))" and lo: "lo \<le> now ev" "now ev \<le> sent_at ev"
      and c: "emails w1 \<noteq> emails w"
  proof (cases "reaches_gate ev path w")
    case False
    with ch c show ?thesis by simp
  next
    case True
    with ch have eq: "aliases w1 = aliases ?g" "emails w1 = emails ?g" by simp_all
    with c w0 have "emails ?g \<noteq> emails ?w0" by simp
    from gate_step(3)[where w = ?w0 and lo = lo and ev = ev and s = s and flags = flags
                       and raw = raw, OF _ lo this] d w0
    have "alert_fresh (alias_id (user s)) (domain_id (user s)) lo ?g" by simp
    with eq(1) show ?thesis by (simp add: alert_fresh_def)
  qed
  show "owner_docs aid did w1 = owner_docs aid did w"
    if no: "\<not> of_owner aid did s" and d: "distinct (map a_id (aliases w))"
  proof (cases "reaches_gate ev path w")
    case False
    with ch show ?thesis by (simp add: owner_docs_def)
  next
    case True
    with ch have eq: "aliases w1 = aliases ?g" by simp
    from gate_step(4)[where w = ?w0 and ev = ev and flags = flags and raw = raw, OF no] d w0
    have "owner_docs aid did ?g = owner_docs aid did ?w0" by simp
    with eq od show ?thesis by (simp add: owner_docs_def)
  qed
  show "emails w1 = emails w"
    if f: "alert_fresh (alias_id (user s)) (domain_id (user s)) lo w" and l: "one_day_ago ev < lo"
    using ch gate_step(5)[where w = ?w0 and ev = ev and s = s and flags = flags and raw = raw
                           and lo = lo] f l fr w0
    by (simp split: if_splits)
  show "aliases w1 = aliases w"
    if f: "alert_fresh (alias_id (user s)) (domain_id (user s)) lo w" and l: "one_day_ago ev < lo"
      and h: "encrypts ev s flags raw \<Longrightarrow>
            alert_fresh (alias_id (user s)) (domain_id (user s)) (now ev - hour + 1) w"
  proof -
    from gate_step(6)[where w = ?w0 and ev = ev and s = s and flags = flags and raw = raw
                           and lo = lo] f l h fr w0
    have "aliases ?g = aliases w" by simp
    with ch show ?thesis by (simp split: if_splits)
  qed
qed

lemma appends_keep_owner_docs:
  assumes "\<forall>rq\<in>set mid. wsp (rq_env rq) = None"
    and "distinct (map a_id (aliases w))"
    and "alert_fresh aid did lo w"
    and "\<forall>rq\<in>set mid. of_owner aid did (rq_session rq) \<longrightarrow> one_day_ago (rq_env rq) < lo"
    and "\<forall>rq\<in>set mid. of_owner aid did (rq_session rq) \<and>
            encrypts (rq_env rq) (rq_session rq) (rq_flags rq) (rq_raw rq) \<longrightarrow>
            alert_fresh aid did (now (rq_env rq) - hour + 1) w"
  shows "owner_docs aid did (snd (appends mid w)) = owner_docs aid did w"
  using assms
proof (induction mid arbitrary: w)
  case Nil
  then show ?case by simp
next
  case (Cons rq mid)
  let ?ev = "rq_env rq" and ?s = "rq_session rq"
  let ?w1 = "snd (onAppend ?ev (rq_path rq) (rq_flags rq) (rq_date rq) (rq_raw rq) ?s w)"
  from Cons.prems have direct: "wsp ?ev = None" by simp
  note st = onAppend_alert_step[OF direct, where path = "rq_path rq" and flags = "rq_flags rq"
      and date = "rq_date rq" and raw = "rq_raw rq" and s = ?s and w = w]
  from st(1) Cons.prems(2) have d1: "distinct (map a_id (aliases ?w1))" by simp
  have od: "owner_docs aid did ?w1 = owner_docs aid did w"
  proof (cases "of_owner aid did ?s")
    case False
    from st(4)[OF False Cons.prems(2)] show ?thesis .
  next
    case True
    then have ids: "alias_id (user ?s) = aid" "domain_id (user ?s) = did"
      by (simp_all add: of_owner_def)
    from Cons.prems(4) True have l: "one_day_ago ?ev < lo" by simp
    from Cons.prems(5) True
    have h: "encrypts ?ev ?s (rq_flags rq) (rq_raw rq) \<Longrightarrow>
               alert_fresh aid did (now ?ev - hour + 1) w" by simp
    from st(6)[where lo = lo] Cons.prems(3) l h ids have "aliases ?w1 = aliases w" by simp
    then show ?thesis by (simp add: owner_docs_def)
  qed
  note fc = alert_fresh_cong[OF od]
  from Cons.prems d1 fc
  have "owner_docs aid did (snd (appends mid ?w1)) = owner_docs aid did ?w1"
    by (intro Cons.IH) simp_all
  moreover have "snd (appends (rq # mid) w) = snd (appends mid ?w1)"
    by (simp split: prod.splits)
  ultimately show ?case using od by simp
qed

lemmas run_defs = ex_failed_encryption_def ex_encrypted_def ex_bad_key_env_def
  ex_failed_encryption_dst_def ex_draft_append_def ex_other_owner_def ex_between_def
  ex_shared_world_def

lemma ex_success_between:
  "map e_to (emails (snd (appends
      [ex_failed_encryption 0, ex_encrypted 7200000, ex_failed_encryption 10800000] ex_world)))
     = [''owner@example.com'', ''owner@example.com'']"
  by (simp add: run_defs ex_defs pipe_defs gate_defs Let_def inc_counters_def)

lemma ex_short_day:
  "map e_to (emails (snd (appends
      [ex_failed_encryption 0, ex_failed_encryption_dst 84600000] ex_world)))
     = [''owner@example.com'', ''owner@example.com'']"
  by (simp add: run_defs ex_defs pipe_defs gate_defs Let_def inc_counters_def)

lemma ex_first_failure:
  "map e_to (emails (snd (appends [ex_failed_encryption 0] ex_shared_world)))
     = [''owner@example.com'']"
  "map pgp_error_sent_at (aliases (snd (appends [ex_failed_encryption 0] ex_shared_world)))
     = [Some 0, None]"
  "map a_id (aliases (snd (appends [ex_failed_encryption 0] ex_shared_world))) = [1, 3]"
  "alert_fresh 1 2 (now (rq_env (ex_encrypted 1800000)) - hour + 1)
     (snd (appends [ex_failed_encryption 0] ex_shared_world))"
  by (simp_all add: run_defs ex_defs pipe_defs gate_defs Let_def inc_counters_def alert_fresh_def)

lemma ex_between_run:
  "map e_to (emails (snd (appends ex_between
       (snd (appends [ex_failed_encryption 0] ex_shared_world)))))
     = [''owner@example.com'', ''other@example.com'']"
  "map pgp_error_sent_at (aliases (snd (appends ex_between
       (snd (appends [ex_failed_encryption 0] ex_shared_world)))))
     = [Some 0, Some 7200000]"
  by (simp_all add: run_defs ex_defs pipe_defs gate_defs Let_def inc_counters_def)



section \<open>The verified claims\<close>

text \<open>
  Claim C1, as amended. For every append that reaches the lookup with
  \<^verbatim>\<open>checkForExisting\<close> set and finds a message with the same fingerprint in the
  mailbox, the callback receives the identifiers (uid, id, size) of that message, with
  status \<^verbatim>\<open>new\<close>, and nothing is written after the encryption gate: mailboxes
  (counters), messages, threads, journal, blobs, accounting, broadcasts and notifier are
  as before the call.
\<close>

theorem C1_existing_message_returned_with_status_new:
  assumes "wsp ev = None" and "refreshSession ev = None"
    and "isOverQuota ev = Inr (storageUsed, False)"
    and "findOne (\<lambda>m. mb_path m = path) (mailboxes w) = Some mailbox"
    and "encryption_gate ev s flags raw (log_debug ''APPEND'' w) = (raw', w1)"
    and "prepareMessage ev flags date raw' = Inr p"
    and "checkForExisting s"
    and "findOne (\<lambda>m. m_fingerprint m = getFingerprint ev s (p_headers p) (body (p_mimeTree p))
                       \<and> m_mailbox m = mb_id mailbox) (messages w) = Some existing"
  shows "onAppend ev path flags date raw s w =
           (Success True
              \<lparr>r_uidValidity = uidValidity mailbox, r_uid = m_uid existing,
               r_id = m_id existing, r_mailbox = mb_id mailbox,
               r_mailboxPath = mb_path mailbox, r_size = m_size existing,
               r_status = ''new''\<rparr>, w1) \<and>
         storage_unchanged w w1 \<and> broadcasts w1 = broadcasts w \<and> fired w1 = fired w"
proof -
  let ?w0 = "log_debug ''APPEND'' w"
  from gate_frame[OF assms(5)]
  have fr: "mailboxes w1 = mailboxes w" "messages w1 = messages w" "threads w1 = threads w"
    "journal w1 = journal w" "attachments w1 = attachments w"
    "storage_used w1 = storage_used w" "broadcasts w1 = broadcasts ?w0" "fired w1 = fired ?w0"
    by simp_all
  from assms(7,8) fr(2)
  have ap: "after_prepare ev s flags storageUsed mailbox p w1 =
     Returned (Success True
              \<lparr>r_uidValidity = uidValidity mailbox, r_uid = m_uid existing,
               r_id = m_id existing, r_mailbox = mb_id mailbox,
               r_mailboxPath = mb_path mailbox, r_size = m_size existing,
               r_status = ''new''\<rparr>) w1"
    by (simp add: after_prepare_def Let_def)
  from assms(2-6) ap
  have "try_block ev path flags date raw s ?w0 =
     Returned (Success True
              \<lparr>r_uidValidity = uidValidity mailbox, r_uid = m_uid existing,
               r_id = m_id existing, r_mailbox = mb_id mailbox,
               r_mailboxPath = mb_path mailbox, r_size = m_size existing,
               r_status = ''new''\<rparr>) w1"
    by (simp add: try_block_def)
  with assms(1) fr show ?thesis
    by (simp add: onAppend_def Let_def storage_unchanged_def log_debug_def)
qed

text \<open>
  Claim C1 as stated fails in its status: the same delivery made twice with
  \<^verbatim>\<open>checkForExisting\<close> stores one message, and the second call answers with the
  first one's identifiers and the status \<^verbatim>\<open>new\<close>, not \<^verbatim>\<open>existing\<close>.
\<close>

theorem C1_status_counterexample:
  "checkForExisting (rq_session ex_mx_request) \<and>
   fst (appends [ex_mx_request, ex_mx_request] ex_world) =
     [Success True \<lparr>r_uidValidity = 1, r_uid = 5, r_id = 77, r_mailbox = 10,
                     r_mailboxPath = ''INBOX'', r_size = 42, r_status = ''new''\<rparr>,
      Success True \<lparr>r_uidValidity = 1, r_uid = 5, r_id = 77, r_mailbox = 10,
                     r_mailboxPath = ''INBOX'', r_size = 42, r_status = ''new''\<rparr>] \<and>
   fst (appends [ex_mx_request, ex_mx_request] ex_world) \<noteq>
     [Success True \<lparr>r_uidValidity = 1, r_uid = 5, r_id = 77, r_mailbox = 10,
                     r_mailboxPath = ''INBOX'', r_size = 42, r_status = ''new''\<rparr>,
      Success True \<lparr>r_uidValidity = 1, r_uid = 5, r_id = 77, r_mailbox = 10,
                     r_mailboxPath = ''INBOX'', r_size = 42, r_status = ''existing''\<rparr>] \<and>
   map m_uid (messages (snd (appends [ex_mx_request, ex_mx_request] ex_world))) = [5]"
proof -
  have c: "checkForExisting (rq_session ex_mx_request)"
    by (simp add: ex_mx_request_def)
  show ?thesis unfolding ex_two_deliveries using c by simp
qed

text \<open>The theorem at the second delivery of the scenario.\<close>

theorem C1_existing_message_witness:
  "wsp ex_env = None \<and> refreshSession ex_env = None \<and> isOverQuota ex_env = Inr (100, False) \<and>
   findOne (\<lambda>m. mb_path m = ''INBOX'') (mailboxes ex_delivered)
     = Some (ex_inbox\<lparr>uidNext := 6, modifyIndex := 9\<rparr>) \<and>
   encryption_gate ex_env ex_mx_session [] (RawString []) (log_debug ''APPEND'' ex_delivered)
     = (RawString [], log_debug ''APPEND'' ex_delivered) \<and>
   prepareMessage ex_env [] 0 (RawString []) = Inr ex_prepared \<and>
   checkForExisting ex_mx_session \<and>
   findOne (\<lambda>m. m_fingerprint m =
                   getFingerprint ex_env ex_mx_session (p_headers ex_prepared)
                     (body (p_mimeTree ex_prepared)) \<and>
                 m_mailbox m = mb_id (ex_inbox\<lparr>uidNext := 6, modifyIndex := 9\<rparr>))
      (messages ex_delivered) = Some ex_message \<and>
   onAppend ex_env ''INBOX'' [] 0 (RawString []) ex_mx_session ex_delivered =
     (Success True \<lparr>r_uidValidity = 1, r_uid = 5, r_id = 77, r_mailbox = 10,
                     r_mailboxPath = ''INBOX'', r_size = 42, r_status = ''new''\<rparr>,
      log_debug ''APPEND'' ex_delivered) \<and>
   storage_unchanged ex_delivered (log_debug ''APPEND'' ex_delivered)"
proof -
  have 1: "wsp ex_env = None" and 2: "refreshSession ex_env = None"
    and 3: "isOverQuota ex_env = Inr (100, False)"
    by (simp_all add: ex_env_def)
  have 4: "findOne (\<lambda>m. mb_path m = ''INBOX'') (mailboxes ex_delivered)
     = Some (ex_inbox\<lparr>uidNext := 6, modifyIndex := 9\<rparr>)"
    by (simp add: ex_delivered_fields findOne_def) (simp add: ex_inbox_def)
  have 5: "encryption_gate ex_env ex_mx_session [] (RawString []) (log_debug ''APPEND'' ex_delivered)
     = (RawString [], log_debug ''APPEND'' ex_delivered)"
    by (simp add: encryption_gate_def ex_mx_session_def ex_session_def ex_user_def)
  have 6: "prepareMessage ex_env [] 0 (RawString []) = Inr ex_prepared"
    by (simp add: ex_env_def)
  have 7: "checkForExisting ex_mx_session" by (simp add: ex_mx_session_def)
  have 8: "findOne (\<lambda>m. m_fingerprint m =
                   getFingerprint ex_env ex_mx_session (p_headers ex_prepared)
                     (body (p_mimeTree ex_prepared)) \<and>
                 m_mailbox m = mb_id (ex_inbox\<lparr>uidNext := 6, modifyIndex := 9\<rparr>))
      (messages ex_delivered) = Some ex_message"
    by (simp add: ex_delivered_fields findOne_def)
       (simp add: ex_message_def ex_env_def ex_prepared_def ex_tree_def ex_inbox_def)
  from C1_existing_message_returned_with_status_new[OF 1 2 3 4 5 6 7 8] 1 2 3 4 5 6 7 8
  show ?thesis
    by (simp add: ex_message_def) (simp add: ex_inbox_def ex_prepared_def)
qed

text \<open>
  Claim C2. For every successful append that stores a message, exactly one mailbox
  document changed, by \<^verbatim>\<open>uidNext + 1\<close> and \<^verbatim>\<open>modifyIndex + 1\<close> in one update
  that returns the document as it was before; the stored message has the pre-increment
  \<^verbatim>\<open>uidNext\<close> as uid and the pre-increment \<^verbatim>\<open>modifyIndex\<close> plus one as modseq.
\<close>

theorem C2_allocation_is_one_increment:
  assumes "wsp ev = None"
    and "onAppend ev path flags date raw s w = (Success b resp, w')"
    and "messages w' \<noteq> messages w"
  shows "\<exists>i pre msg. i < length (mailboxes w) \<and> mailboxes w ! i = pre \<and>
      mailboxes w' = (mailboxes w)[i := pre\<lparr>uidNext := uidNext pre + 1,
                                            modifyIndex := modifyIndex pre + 1\<rparr>] \<and>
      messages w' = messages w @ [msg] \<and> m_mailbox msg = mb_id pre \<and>
      m_uid msg = uidNext pre \<and> m_modseq msg = modifyIndex pre + 1 \<and>
      r_uid resp = uidNext pre \<and> r_mailbox resp = mb_id pre"
proof -
  from onAppend_stored[OF assms] obtain mailbox0 :: mailbox and pre msg where
    fu: "findOneAndUpdate (\<lambda>m. mb_id m = mb_id mailbox0) inc_counters (mailboxes w)
          = (Some pre, mailboxes w')" and
    ms: "messages w' = messages w @ [msg]" "m_mailbox msg = mb_id pre"
      "m_uid msg = uidNext pre" "m_modseq msg = modifyIndex pre + 1"
      "r_uid resp = uidNext pre" "r_mailbox resp = mb_id pre"
    by blast
  from findOneAndUpdate_Some[OF fu] obtain i where
    "i < length (mailboxes w)" "mailboxes w ! i = pre"
    "mailboxes w' = (mailboxes w)[i := inc_counters pre]" by blast
  with ms show ?thesis by (auto simp: inc_counters_def)
qed

text \<open>The theorem at the scenario: uid 5, and the inbox counters move from 5/8 to 6/9.\<close>

theorem C2_allocation_witness:
  "wsp ex_env = None \<and>
   fst (onAppend ex_env ''INBOX'' [] 0 (RawString []) ex_session ex_world) =
     Success True \<lparr>r_uidValidity = 1, r_uid = 5, r_id = 77, r_mailbox = 10,
                   r_mailboxPath = ''INBOX'', r_size = 42, r_status = ''new''\<rparr> \<and>
   messages (snd (onAppend ex_env ''INBOX'' [] 0 (RawString []) ex_session ex_world))
     \<noteq> messages ex_world \<and>
   (\<exists>i pre msg. i < length (mailboxes ex_world) \<and> mailboxes ex_world ! i = pre \<and>
      mailboxes (snd (onAppend ex_env ''INBOX'' [] 0 (RawString []) ex_session ex_world)) =
        (mailboxes ex_world)[i := pre\<lparr>uidNext := uidNext pre + 1,
                                       modifyIndex := modifyIndex pre + 1\<rparr>] \<and>
      messages (snd (onAppend ex_env ''INBOX'' [] 0 (RawString []) ex_session ex_world)) =
        messages ex_world @ [msg] \<and> m_mailbox msg = mb_id pre \<and>
      m_uid msg = uidNext pre \<and> m_modseq msg = modifyIndex pre + 1 \<and> 5 = uidNext pre \<and>
      10 = mb_id pre)"
proof -
  let ?r = "onAppend ex_env ''INBOX'' [] 0 (RawString []) ex_session ex_world"
  let ?resp = "\<lparr>r_uidValidity = 1, r_uid = 5, r_id = 77, r_mailbox = 10,
                   r_mailboxPath = ''INBOX'', r_size = 42, r_status = ''new''\<rparr>"
  have 1: "wsp ex_env = None" by (simp add: ex_env_def)
  have 2: "?r = (Success True ?resp, snd ?r)"
    using ex_append_inbox(1) by (metis prod.collapse)
  have 3: "messages (snd ?r) \<noteq> messages ex_world"
    by (simp add: ex_append_inbox(3)) (simp add: ex_world_def)
  from C2_allocation_is_one_increment[OF 1 2 3] 1 3 ex_append_inbox(1) show ?thesis by simp
qed

text \<open>
  Claim C3. Across any sequence of appends served by the pipeline, for every mailbox
  \<open>k\<close>: \<^verbatim>\<open>uidNext\<close> and \<^verbatim>\<open>modifyIndex\<close> never decrease and grow by at least one
  for each message stored in it, and the (uid, modseq) pairs given to the successive new
  messages of the mailbox are strictly increasing (each uid at least the old and below the
  new \<^verbatim>\<open>uidNext\<close>), hence never repeat.
\<close>

theorem C3_counters_and_identifiers_strictly_increase:
  assumes "\<forall>rq\<in>set rqs. wsp (rq_env rq) = None"
    and "appends rqs w = (cbs, w')"
  shows "uidNext_of w k + length (allocated w w' k) \<le> uidNext_of w' k \<and>
         modifyIndex_of w k + length (allocated w w' k) \<le> modifyIndex_of w' k \<and>
         sorted_wrt (<) (map m_uid (allocated w w' k)) \<and>
         sorted_wrt (<) (map m_modseq (allocated w w' k)) \<and>
         distinct (map m_uid (allocated w w' k)) \<and>
         distinct (map m_modseq (allocated w w' k)) \<and>
         list_all (\<lambda>m. uidNext_of w k \<le> m_uid m \<and> m_uid m < uidNext_of w' k \<and>
                       modifyIndex_of w k < m_modseq m \<and> m_modseq m \<le> modifyIndex_of w' k)
           (allocated w w' k)"
proof -
  from appends_ordered[OF assms(1), of w k] assms(2)
  have a: "allocation_ordered w w' k" by simp
  then have "sorted_wrt (<) (map m_uid (allocated w w' k))"
    "sorted_wrt (<) (map m_modseq (allocated w w' k))"
    by (simp_all add: allocation_ordered_def)
  with a show ?thesis by (simp add: strict_sorted_distinct allocation_ordered_def)
qed

text \<open>The theorem at two appends to the inbox: uids 5 and 6, mod-sequences 9 and 10.\<close>

theorem C3_counters_witness:
  "list_all (\<lambda>rq. wsp (rq_env rq) = None) [ex_request, ex_request] \<and>
   map (\<lambda>m. (m_uid m, m_modseq m))
     (allocated ex_world (snd (appends [ex_request, ex_request] ex_world)) 10)
     = [(5, 9), (6, 10)] \<and>
   uidNext_of ex_world 10 = 5 \<and>
   uidNext_of (snd (appends [ex_request, ex_request] ex_world)) 10 = 7 \<and>
   modifyIndex_of ex_world 10 = 8 \<and>
   modifyIndex_of (snd (appends [ex_request, ex_request] ex_world)) 10 = 10 \<and>
   sorted_wrt (<) (map m_uid
     (allocated ex_world (snd (appends [ex_request, ex_request] ex_world)) 10)) \<and>
   distinct (map m_modseq
     (allocated ex_world (snd (appends [ex_request, ex_request] ex_world)) 10))"
proof -
  have h: "\<forall>rq\<in>set [ex_request, ex_request]. wsp (rq_env rq) = None"
    by (simp add: ex_request_def ex_env_def)
  have p: "appends [ex_request, ex_request] ex_world =
             (fst (appends [ex_request, ex_request] ex_world),
              snd (appends [ex_request, ex_request] ex_world))"
    by (rule prod.collapse[symmetric])
  have i: "uidNext_of ex_world 10 = 5" "modifyIndex_of ex_world 10 = 8"
    by (simp_all add: uidNext_of_def modifyIndex_of_def findOne_def ex_world_def ex_inbox_def)
  from C3_counters_and_identifiers_strictly_increase[OF h p, of 10]
  have "sorted_wrt (<) (map m_uid
     (allocated ex_world (snd (appends [ex_request, ex_request] ex_world)) 10))"
    and "distinct (map m_modseq
     (allocated ex_world (snd (appends [ex_request, ex_request] ex_world)) 10))"
    by blast+
  with h i ex_two_appends show ?thesis by (simp add: list_all_iff)
qed

text \<open>
  Claim C4. For every append that reaches the final quota check (session refreshed, the
  zero-byte check passed, mailbox found, message prepared, no existing message
  returned): if \<^verbatim>\<open>storageUsed + size\<close> exceeds the domain's maximum the append fails
  with the \<^verbatim>\<open>IMAP_MAILBOX_MESSAGE_EXCEEDS_QUOTA\<close> error carrying \<^verbatim>\<open>OVERQUOTA\<close>,
  leaving the storage as it was; if it is at most the maximum (in particular exactly
  equal) the check lets the append through, and the append succeeds with a new message
  stored whenever the collaborators after the check do not fail.
\<close>

theorem C4_final_quota_boundary:
  assumes "wsp ev = None" and "refreshSession ev = None"
    and "isOverQuota ev = Inr (storageUsed, False)"
    and "findOne (\<lambda>m. mb_path m = path) (mailboxes w) = Some mailbox"
    and "encryption_gate ev s flags raw (log_debug ''APPEND'' w) = (raw', w1)"
    and "prepareMessage ev flags date raw' = Inr p"
    and "checkForExisting s \<longrightarrow>
           findOne (\<lambda>m. m_fingerprint m = getFingerprint ev s (p_headers p) (body (p_mimeTree p))
                       \<and> m_mailbox m = mb_id mailbox) (messages w) = None"
    and "getMaxQuota ev = Inr maxQuotaPerAlias"
  shows "(storageUsed + p_size p > maxQuotaPerAlias \<longrightarrow>
            onAppend ev path flags date raw s w = (Refined (message_exceeds_quota s), w1) \<and>
            imapResponse (message_exceeds_quota s) = Some ''OVERQUOTA'' \<and>
            storage_unchanged w w1) \<and>
         (storageUsed + p_size p \<le> maxQuotaPerAlias \<longrightarrow>
            (\<exists>has amap thread.
               storeNodeBodies ev (getMaildata ev (p_mimeTree p)) (p_mimeTree p) = Stored has amap \<and>
               getThreadId ev (p_subject p) ((p_mimeTree p)\<lparr>attachmentMap := amap\<rparr>) = Inr thread) \<longrightarrow>
            create_error ev = None \<longrightarrow> broadcast_error ev = None \<longrightarrow>
            addEntries_error ev = None \<longrightarrow>
            (\<exists>resp w'. onAppend ev path flags date raw s w = (Success True resp, w') \<and>
               r_status resp = ''new'' \<and> r_size resp = p_size p \<and>
               length (messages w') = length (messages w) + 1))"
proof -
  let ?w0 = "log_debug ''APPEND'' w"
  let ?fp = "getFingerprint ev s (p_headers p) (body (p_mimeTree p))"
  from gate_frame[OF assms(5)]
  have fr: "mailboxes w1 = mailboxes w" "messages w1 = messages w" "threads w1 = threads w"
    "journal w1 = journal w" "attachments w1 = attachments w"
    "storage_used w1 = storage_used w"
    by simp_all
  from assms(2-6)
  have tb: "try_block ev path flags date raw s ?w0 = after_prepare ev s flags storageUsed mailbox p w1"
    by (simp add: try_block_def)
  from assms(7) fr(2)
  have look: "(if checkForExisting s
            then findOne (\<lambda>m. m_fingerprint m = ?fp \<and> m_mailbox m = mb_id mailbox) (messages w1)
            else None) = None"
    by simp
  have over: "onAppend ev path flags date raw s w = (Refined (message_exceeds_quota s), w1)"
    if "storageUsed + p_size p > maxQuotaPerAlias"
  proof -
    from look assms(8) that
    have "after_prepare ev s flags storageUsed mailbox p w1 =
            Thrown (message_exceeds_quota s) False (Some (p_mimeTree p)) None w1"
      by (simp add: after_prepare_def Let_def)
    with tb assms(1) show ?thesis
      by (simp add: onAppend_def Let_def catch_block_def attachmentIds_def split: option.splits)
  qed
  have under: "\<exists>resp w'. onAppend ev path flags date raw s w = (Success True resp, w') \<and>
               r_status resp = ''new'' \<and> r_size resp = p_size p \<and>
               length (messages w') = length (messages w) + 1"
    if le: "storageUsed + p_size p \<le> maxQuotaPerAlias"
      and st: "storeNodeBodies ev (getMaildata ev (p_mimeTree p)) (p_mimeTree p) = Stored has amap"
      and th: "getThreadId ev (p_subject p) ((p_mimeTree p)\<lparr>attachmentMap := amap\<rparr>) = Inr thread"
      and ok: "create_error ev = None" "broadcast_error ev = None" "addEntries_error ev = None"
    for has amap thread
  proof -
    let ?w2 = "store_blobs (map_values amap) w1"
    from find_by_id_of_member[OF assms(4)] fr(1) obtain pre where
      pre: "find (\<lambda>m. mb_id m = mb_id mailbox) (mailboxes ?w2) = Some pre"
      by (auto simp: store_blobs_def)
    from persist_succeeds[OF pre th ok, of s flags ?fp "getMaildata ev (p_mimeTree p)" has]
    obtain w' where
      ps: "persist ev s flags mailbox p ?fp (getMaildata ev (p_mimeTree p))
             ((p_mimeTree p)\<lparr>attachmentMap := amap\<rparr>) has ?w2 =
           Returned (Success True \<lparr>r_uidValidity = uidValidity pre, r_uid = uidNext pre,
                  r_id = p_id p, r_mailbox = mb_id pre, r_mailboxPath = mb_path pre,
                  r_size = p_size p, r_status = ''new''\<rparr>) w'" and
      ms: "length (messages w') = length (messages ?w2) + 1"
      by auto
    from look assms(8) le st ps
    have "after_prepare ev s flags storageUsed mailbox p w1 =
           Returned (Success True \<lparr>r_uidValidity = uidValidity pre, r_uid = uidNext pre,
                  r_id = p_id p, r_mailbox = mb_id pre, r_mailboxPath = mb_path pre,
                  r_size = p_size p, r_status = ''new''\<rparr>) w'"
      by (simp add: after_prepare_def Let_def)
    with tb assms(1) have "onAppend ev path flags date raw s w =
        (Success True \<lparr>r_uidValidity = uidValidity pre, r_uid = uidNext pre,
                  r_id = p_id p, r_mailbox = mb_id pre, r_mailboxPath = mb_path pre,
                  r_size = p_size p, r_status = ''new''\<rparr>, w')"
      by (simp add: onAppend_def Let_def)
    with ms fr(2) show ?thesis by (simp add: store_blobs_def)
  qed
  from over under fr show ?thesis
    by (auto simp: storage_unchanged_def message_exceeds_quota_def)
qed

text \<open>The theorem at the scenario, where 100 + 42 bytes meet a quota of exactly 142 and
  the append succeeds, and with a quota of 141, where it fails.\<close>

theorem C4_final_quota_witness:
  "wsp ex_env = None \<and> refreshSession ex_env = None \<and> isOverQuota ex_env = Inr (100, False) \<and>
   findOne (\<lambda>m. mb_path m = ''INBOX'') (mailboxes ex_world) = Some ex_inbox \<and>
   encryption_gate ex_env ex_session [] (RawString []) (log_debug ''APPEND'' ex_world)
     = (RawString [], log_debug ''APPEND'' ex_world) \<and>
   prepareMessage ex_env [] 0 (RawString []) = Inr ex_prepared \<and>
   \<not> checkForExisting ex_session \<and>
   getMaxQuota ex_env = Inr 142 \<and> getMaxQuota ex_tight_env = Inr 141 \<and>
   100 + p_size ex_prepared = 142 \<and>
   (\<exists>resp w'. onAppend ex_env ''INBOX'' [] 0 (RawString []) ex_session ex_world
                 = (Success True resp, w') \<and>
      r_status resp = ''new'' \<and> r_size resp = 42 \<and>
      length (messages w') = length (messages ex_world) + 1) \<and>
   onAppend ex_tight_env ''INBOX'' [] 0 (RawString []) ex_session ex_world =
     (Refined (message_exceeds_quota ex_session), log_debug ''APPEND'' ex_world) \<and>
   imapResponse (message_exceeds_quota ex_session) = Some ''OVERQUOTA''"
proof -
  have 1: "wsp ex_env = None" "wsp ex_tight_env = None"
    and 2: "refreshSession ex_env = None" "refreshSession ex_tight_env = None"
    and 3: "isOverQuota ex_env = Inr (100, False)" "isOverQuota ex_tight_env = Inr (100, False)"
    by (simp_all add: ex_env_def ex_tight_env_def)
  have 4: "findOne (\<lambda>m. mb_path m = ''INBOX'') (mailboxes ex_world) = Some ex_inbox"
    by (simp add: findOne_def ex_world_def ex_inbox_def)
  have 5: "encryption_gate ex_env ex_session [] (RawString []) (log_debug ''APPEND'' ex_world)
     = (RawString [], log_debug ''APPEND'' ex_world)"
    "encryption_gate ex_tight_env ex_session [] (RawString []) (log_debug ''APPEND'' ex_world)
     = (RawString [], log_debug ''APPEND'' ex_world)"
    by (simp_all add: encryption_gate_def ex_session_def ex_user_def)
  have 6: "prepareMessage ex_env [] 0 (RawString []) = Inr ex_prepared"
    "prepareMessage ex_tight_env [] 0 (RawString []) = Inr ex_prepared"
    by (simp_all add: ex_env_def ex_tight_env_def)
  have 7: "\<not> checkForExisting ex_session" by (simp add: ex_session_def)
  then have nolook: "checkForExisting ex_session \<longrightarrow>
           findOne (\<lambda>m. m_fingerprint m = getFingerprint ev ex_session (p_headers ex_prepared)
                           (body (p_mimeTree ex_prepared))
                       \<and> m_mailbox m = mb_id ex_inbox) (messages ex_world) = None" for ev
    by simp
  have 8: "getMaxQuota ex_env = Inr 142" "getMaxQuota ex_tight_env = Inr 141"
    by (simp_all add: ex_env_def ex_tight_env_def)
  have sz: "100 + p_size ex_prepared = 142" by (simp add: ex_prepared_def)
  have later: "\<exists>has amap thread.
       storeNodeBodies ex_env (getMaildata ex_env (p_mimeTree ex_prepared)) (p_mimeTree ex_prepared)
         = Stored has amap \<and>
       getThreadId ex_env (p_subject ex_prepared) ((p_mimeTree ex_prepared)\<lparr>attachmentMap := amap\<rparr>)
         = Inr thread"
    "create_error ex_env = None" "broadcast_error ex_env = None" "addEntries_error ex_env = None"
    by (auto simp: ex_env_def)
  from C4_final_quota_boundary[OF 1(1) 2(1) 3(1) 4 5(1) 6(1) nolook 8(1)] sz later
  have a: "\<exists>resp w'. onAppend ex_env ''INBOX'' [] 0 (RawString []) ex_session ex_world
                 = (Success True resp, w') \<and>
      r_status resp = ''new'' \<and> r_size resp = 42 \<and>
      length (messages w') = length (messages ex_world) + 1"
    by (simp add: ex_prepared_def)
  from C4_final_quota_boundary[OF 1(2) 2(2) 3(2) 4 5(2) 6(2) nolook 8(2)] sz
  have b: "onAppend ex_tight_env ''INBOX'' [] 0 (RawString []) ex_session ex_world =
     (Refined (message_exceeds_quota ex_session), log_debug ''APPEND'' ex_world) \<and>
   imapResponse (message_exceeds_quota ex_session) = Some ''OVERQUOTA''"
    by simp
  from a b 1 2 3 4 5 6 7 8 sz show ?thesis by simp
qed

text \<open>
  Claim C5, as amended. The size limit is checked only on the forwarding path, that is
  when the handler has a websocket client: there, every append whose \<^verbatim>\<open>raw\<close> is
  longer than 64 MiB makes the callback receive the \<^verbatim>\<open>IMAP_MESSAGE_SIZE_EXCEEDED\<close>
  error, nothing is forwarded, and apart from the debug log line the state is unchanged:
  no mailbox counter, message, blob or journal entry is touched.
\<close>

theorem C5_oversize_rejected_by_forwarding_path:
  assumes "wsp ev = Some request" and "raw_length raw > SIXTY_FOUR_MB_IN_BYTES"
  shows "onAppend ev path flags date raw s w =
           (Failure (message_size_exceeded s), log_debug ''APPEND'' w) \<and>
         storage_unchanged w (snd (onAppend ev path flags date raw s w))"
proof -
  from assms(2) have "raw_truthy raw" by (intro raw_truthy_length) simp
  with assms have "onAppend ev path flags date raw s w =
           (Failure (message_size_exceeded s), log_debug ''APPEND'' w)"
    by (simp add: onAppend_def Let_def wsp_catch_def message_size_exceeded_def)
  then show ?thesis by (simp add: storage_unchanged_def log_debug_def)
qed

text \<open>The theorem at a buffer of 64 MiB + 1 bytes.\<close>

theorem C5_oversize_rejected_witness:
  "wsp ex_front_env = Some ex_offline \<and>
   raw_length ex_big_raw > SIXTY_FOUR_MB_IN_BYTES \<and>
   onAppend ex_front_env ''INBOX'' [] 0 ex_big_raw ex_session ex_world =
     (Failure (message_size_exceeded ex_session), log_debug ''APPEND'' ex_world)"
proof -
  have 1: "wsp ex_front_env = Some ex_offline"
    by (simp add: ex_front_env_def)
  have 2: "raw_length ex_big_raw > SIXTY_FOUR_MB_IN_BYTES"
    by (simp add: ex_big_raw_def SIXTY_FOUR_MB_IN_BYTES_def)
  from C5_oversize_rejected_by_forwarding_path[OF 1 2] 1 2 show ?thesis by simp
qed

text \<open>
  Claim C5 as stated fails on the direct path (no websocket client), which has no size
  check: the same buffer of 64 MiB + 1 bytes is appended, the message is stored and the
  mailbox counter advances.
\<close>

theorem C5_direct_path_counterexample:
  "raw_length ex_big_raw > SIXTY_FOUR_MB_IN_BYTES \<and>
   fst (onAppend ex_big_env ''INBOX'' [] 0 ex_big_raw ex_session ex_world) =
     Success True \<lparr>r_uidValidity = 1, r_uid = 5, r_id = 77, r_mailbox = 10,
                   r_mailboxPath = ''INBOX'', r_size = 67108865, r_status = ''new''\<rparr> \<and>
   map m_size (messages (snd (onAppend ex_big_env ''INBOX'' [] 0 ex_big_raw ex_session ex_world)))
     = [67108865] \<and>
   uidNext_of (snd (onAppend ex_big_env ''INBOX'' [] 0 ex_big_raw ex_session ex_world)) 10 = 6"
  by (simp add: ex_big_raw_def SIXTY_FOUR_MB_IN_BYTES_def ex_big_env_def ex_defs pipe_defs
      Let_def uidNext_of_def inc_counters_def)

text \<open>
  Claim C6. On the direct path, when the path resolves to no mailbox the handler changes
  nothing but the debug log (so no mailbox is created and the storage is not touched),
  and an append that reaches the mailbox lookup (session refreshed, owner not over quota
  at the zero-byte check) fails with the \<^verbatim>\<open>IMAP_MAILBOX_DOES_NOT_EXIST\<close> error, whose
  \<^verbatim>\<open>imapResponse\<close> is \<^verbatim>\<open>TRYCREATE\<close>.
\<close>

theorem C6_missing_mailbox_trycreate:
  assumes "wsp ev = None" and "findOne (\<lambda>m. mb_path m = path) (mailboxes w) = None"
  shows "snd (onAppend ev path flags date raw s w) = log_debug ''APPEND'' w \<and>
         storage_unchanged w (snd (onAppend ev path flags date raw s w)) \<and>
         (refreshSession ev = None \<and> (\<exists>su. isOverQuota ev = Inr (su, False)) \<longrightarrow>
            fst (onAppend ev path flags date raw s w) = Refined (mailbox_does_not_exist s)) \<and>
         imapResponse (mailbox_does_not_exist s) = Some ''TRYCREATE''"
proof -
  let ?w0 = "log_debug ''APPEND'' w"
  from assms(2) have nf: "findOne (\<lambda>m. mb_path m = path) (mailboxes ?w0) = None"
    by (simp add: log_debug_def)
  have tb: "\<exists>e. try_block ev path flags date raw s ?w0 = Thrown e False None None ?w0"
    using nf by (auto simp: try_block_def split: option.splits sum.splits)
  then obtain e where e: "try_block ev path flags date raw s ?w0 = Thrown e False None None ?w0" ..
  have 1: "onAppend ev path flags date raw s w = (Refined e, ?w0)"
    using assms(1) e by (simp add: onAppend_def Let_def catch_block_def attachmentIds_def)
  have 2: "refreshSession ev = None \<and> (\<exists>su. isOverQuota ev = Inr (su, False)) \<longrightarrow>
      e = mailbox_does_not_exist s"
    using e nf by (auto simp: try_block_def)
  from 1 2 show ?thesis
    by (simp add: storage_unchanged_def log_debug_def mailbox_does_not_exist_def)
qed

text \<open>The theorem at the scenario with a path that does not exist.\<close>

theorem C6_missing_mailbox_witness:
  "wsp ex_env = None \<and> findOne (\<lambda>m. mb_path m = ''Archive'') (mailboxes ex_world) = None \<and>
   refreshSession ex_env = None \<and> isOverQuota ex_env = Inr (100, False) \<and>
   onAppend ex_env ''Archive'' [] 0 (RawString []) ex_session ex_world =
     (Refined (mailbox_does_not_exist ex_session), log_debug ''APPEND'' ex_world) \<and>
   mailboxes (log_debug ''APPEND'' ex_world) = [ex_inbox, ex_drafts]"
proof -
  have 1: "wsp ex_env = None" by (simp add: ex_env_def)
  have 2: "findOne (\<lambda>m. mb_path m = ''Archive'') (mailboxes ex_world) = None"
    by (simp add: findOne_def ex_world_def ex_inbox_def ex_drafts_def)
  have 3: "refreshSession ex_env = None" "isOverQuota ex_env = Inr (100, False)"
    by (simp_all add: ex_env_def)
  from C6_missing_mailbox_trycreate[OF 1 2, of "[]" 0 "RawString []" ex_session] 3
  have "onAppend ex_env ''Archive'' [] 0 (RawString []) ex_session ex_world =
     (Refined (mailbox_does_not_exist ex_session), log_debug ''APPEND'' ex_world)"
    by (metis prod.collapse)
  with 1 2 3 show ?thesis by (simp add: log_debug_def ex_world_def)
qed

text \<open>
  Claim C7. For an append that reaches the gate, the encryption helper is called exactly
  when the flags do not include \<^verbatim>\<open>\Draft\<close> and the owner has encryption configured,
  and then once, with the owner's key and the raw message; an append that fails before
  the gate does not call it. Whenever the helper raises an
  error the raw message goes on unchanged, and the callback value and the resulting
  storage are those of the same append with a helper that returns the message as it is:
  the error of the helper never reaches the caller.
\<close>

theorem C7_encryption_gate_never_fails_the_append:
  assumes "wsp ev = None"
  shows "(reaches_gate ev path w \<longrightarrow>
            ((calls (snd (onAppend ev path flags date raw s w)) \<noteq> calls w) =
               (\<not> includes_flag flags Draft \<and> encryption_configured s)) \<and>
            (\<forall>key. alias_public_key (user s) = Some key \<and> \<not> includes_flag flags Draft \<and>
                   encryption_configured s \<longrightarrow>
               calls (snd (onAppend ev path flags date raw s w)) =
                 calls w @ [EncryptMessage key raw])) \<and>
         (\<not> reaches_gate ev path w \<longrightarrow>
            calls (snd (onAppend ev path flags date raw s w)) = calls w) \<and>
         (\<forall>key err. alias_public_key (user s) = Some key \<and> encryptMessage ev key raw = Inl err \<longrightarrow>
            fst (encryption_gate ev s flags raw (log_debug ''APPEND'' w)) = raw \<and>
            fst (onAppend ev path flags date raw s w) =
              fst (onAppend (ev\<lparr>encryptMessage := (\<lambda>k r. Inr r)\<rparr>) path flags date raw s w) \<and>
            agrees (snd (onAppend (ev\<lparr>encryptMessage := (\<lambda>k r. Inr r)\<rparr>) path flags date raw s w))
                   (snd (onAppend ev path flags date raw s w)))"
proof -
  let ?w0 = "log_debug ''APPEND'' w"
  have c0: "calls ?w0 = calls w" by simp
  have inv: "reaches_gate ev path w \<Longrightarrow>
      calls (snd (onAppend ev path flags date raw s w)) =
        (case alias_public_key (user s) of
        None \<Rightarrow> calls w
      | Some key \<Rightarrow>
          if \<not> includes_flag flags Draft \<and> encryption_configured s
          then calls w @ [EncryptMessage key raw] else calls w)"
    using onAppend_channels[OF assms, of path flags date raw s w]
      gate_calls[of ev s flags raw ?w0] c0 by (simp split: option.splits)
  have A: "reaches_gate ev path w \<longrightarrow>
            ((calls (snd (onAppend ev path flags date raw s w)) \<noteq> calls w) =
               (\<not> includes_flag flags Draft \<and> encryption_configured s)) \<and>
            (\<forall>key. alias_public_key (user s) = Some key \<and> \<not> includes_flag flags Draft \<and>
                   encryption_configured s \<longrightarrow>
               calls (snd (onAppend ev path flags date raw s w)) =
                 calls w @ [EncryptMessage key raw])"
  proof
    assume rg: "reaches_gate ev path w"
    show "((calls (snd (onAppend ev path flags date raw s w)) \<noteq> calls w) =
               (\<not> includes_flag flags Draft \<and> encryption_configured s)) \<and>
            (\<forall>key. alias_public_key (user s) = Some key \<and> \<not> includes_flag flags Draft \<and>
                   encryption_configured s \<longrightarrow>
               calls (snd (onAppend ev path flags date raw s w)) =
                 calls w @ [EncryptMessage key raw])"
      using inv[OF rg] configured_key[of s]
      by (auto split: option.splits)
  qed
  have B: "fst (encryption_gate ev s flags raw ?w0) = raw \<and>
            fst (onAppend ev path flags date raw s w) =
              fst (onAppend (ev\<lparr>encryptMessage := (\<lambda>k r. Inr r)\<rparr>) path flags date raw s w) \<and>
            agrees (snd (onAppend (ev\<lparr>encryptMessage := (\<lambda>k r. Inr r)\<rparr>) path flags date raw s w))
                   (snd (onAppend ev path flags date raw s w))"
    if k: "alias_public_key (user s) = Some key" and f: "encryptMessage ev key raw = Inl err"
    for key err
  proof -
    let ?ev' = "ev\<lparr>encryptMessage := (\<lambda>k r. Inr r)\<rparr>"
    from try_block_failed_encryption[OF k f, of path flags date ?w0]
    have sr: "same_result (try_block ev path flags date raw s ?w0)
                          (try_block ?ev' path flags date raw s ?w0)" .
    have o1: "onAppend ev path flags date raw s w =
        (case try_block ev path flags date raw s ?w0 of Returned cb w1 \<Rightarrow> (cb, w1)
         | Thrown err has tree md w1 \<Rightarrow> catch_block ev err has tree w1)"
      using assms by (simp add: onAppend_def Let_def)
    have o2: "onAppend ?ev' path flags date raw s w =
        (case try_block ?ev' path flags date raw s ?w0 of Returned cb w1 \<Rightarrow> (cb, w1)
         | Thrown err has tree md w1 \<Rightarrow> catch_block ev err has tree w1)"
      using assms by (simp add: onAppend_def Let_def split: try_result.splits)
    from same_result_catch[OF sr, of ev] o1 o2 gate_on_failure[OF k f, of flags ?w0]
    show ?thesis by (simp add: agrees_def)
  qed
  have C: "\<not> reaches_gate ev path w \<longrightarrow>
            calls (snd (onAppend ev path flags date raw s w)) = calls w"
    using onAppend_channels[OF assms, of path flags date raw s w] by simp
  from A B C show ?thesis by blast
qed

text \<open>The theorem at an append by an owner whose key is unusable: the helper is called
  once and the append succeeds.\<close>

theorem C7_encryption_gate_witness:
  "wsp ex_bad_key_env = None \<and> reaches_gate ex_bad_key_env ''INBOX'' ex_world \<and>
   alias_public_key (user ex_pgp_session) = Some ''KEY'' \<and> \<not> includes_flag [] Draft \<and>
   encryption_configured ex_pgp_session \<and>
   encryptMessage ex_bad_key_env ''KEY'' (RawString []) = Inl (Error ''bad key'') \<and>
   calls ex_world = [] \<and>
   calls (snd (onAppend ex_bad_key_env ''INBOX'' [] 0 (RawString []) ex_pgp_session ex_world)) =
     [EncryptMessage ''KEY'' (RawString [])] \<and>
   fst (onAppend (ex_bad_key_env\<lparr>encryptMessage := (\<lambda>k r. Inr r)\<rparr>) ''INBOX'' [] 0
          (RawString []) ex_pgp_session ex_world) =
     Success True \<lparr>r_uidValidity = 1, r_uid = 5, r_id = 77, r_mailbox = 10,
                   r_mailboxPath = ''INBOX'', r_size = 42, r_status = ''new''\<rparr> \<and>
   fst (onAppend ex_bad_key_env ''INBOX'' [] 0 (RawString []) ex_pgp_session ex_world) =
     Success True \<lparr>r_uidValidity = 1, r_uid = 5, r_id = 77, r_mailbox = 10,
                   r_mailboxPath = ''INBOX'', r_size = 42, r_status = ''new''\<rparr> \<and>
   \<not> reaches_gate ex_bad_key_env ''Archive'' ex_world \<and>
   calls (snd (onAppend ex_bad_key_env ''Archive'' [] 0 (RawString []) ex_pgp_session ex_world))
     = []"
proof -
  have 1: "wsp ex_bad_key_env = None" by (simp add: ex_bad_key_env_def ex_env_def)
  have 2: "reaches_gate ex_bad_key_env ''INBOX'' ex_world"
    by (simp add: reaches_gate_def ex_bad_key_env_def ex_env_def findOne_def ex_world_def
          ex_inbox_def)
  have 3: "alias_public_key (user ex_pgp_session) = Some ''KEY''" "\<not> includes_flag [] Draft"
    "encryption_configured ex_pgp_session"
    by (simp_all add: ex_pgp_session_def ex_session_def ex_user_def includes_flag_def
          encryption_configured_def)
  have 4: "encryptMessage ex_bad_key_env ''KEY'' (RawString []) = Inl (Error ''bad key'')"
    by (simp add: ex_bad_key_env_def)
  have 5: "calls ex_world = []" by (simp add: ex_world_def)
  from C7_encryption_gate_never_fails_the_append[OF 1, of "''INBOX''" ex_world "[]" 0
         "RawString []" ex_pgp_session] 2 3 4 5 ex_bad_key_append(1)
  have "calls (snd (onAppend ex_bad_key_env ''INBOX'' [] 0 (RawString []) ex_pgp_session ex_world)) =
     [EncryptMessage ''KEY'' (RawString [])]"
    and "fst (onAppend (ex_bad_key_env\<lparr>encryptMessage := (\<lambda>k r. Inr r)\<rparr>) ''INBOX'' [] 0
          (RawString []) ex_pgp_session ex_world) =
     Success True \<lparr>r_uidValidity = 1, r_uid = 5, r_id = 77, r_mailbox = 10,
                   r_mailboxPath = ''INBOX'', r_size = 42, r_status = ''new''\<rparr>"
    by auto
  moreover have 6: "\<not> reaches_gate ex_bad_key_env ''Archive'' ex_world"
    by (simp add: reaches_gate_def findOne_def ex_world_def ex_inbox_def ex_drafts_def)
  moreover from C7_encryption_gate_never_fails_the_append[OF 1, of "''Archive''" ex_world "[]" 0
         "RawString []" ex_pgp_session] 5 6
  have "calls (snd (onAppend ex_bad_key_env ''Archive'' [] 0 (RawString []) ex_pgp_session
          ex_world)) = []"
    by simp
  ultimately show ?thesis using 1 2 3 4 5 ex_bad_key_append(1) by simp
qed

text \<open>
  Claim C8, as amended. For every owner and any two appends of that owner, with any
  appends of any owners in between: each of the two sends at most one alert email; when
  the first sent an alert and the second comes less than one day after it, the second
  sends none, provided that the appends of the owner in between also come less than one
  day after the alert and none of them is successfully encrypted one hour or more after
  the alert. One day is what \<^verbatim>\<open>dayjs().subtract(1, 'day')\<close> subtracts at the later
  append: a calendar day of the server's local time. In general an append of the owner
  sends no alert while every alias document of the owner carries an alert timestamp
  later than one day ago: the email is sent only when the one conditional update found
  the timestamp absent or not later than one day ago.
\<close>

theorem C8_second_failure_within_a_day_sends_no_alert:
  assumes "wsp (rq_env f1) = None" and "\<forall>rq\<in>set mid. wsp (rq_env rq) = None"
    and "wsp (rq_env f2) = None"
    and "of_owner aid did (rq_session f1)" and "of_owner aid did (rq_session f2)"
    and "distinct (map a_id (aliases w))"
    and "appends [f1] w = (cbs1, w1)" and "appends mid w1 = (cbs, w2)"
    and "appends [f2] w2 = (cbs2, w3)"
  shows "length (emails w1) \<le> length (emails w) + 1 \<and>
         length (emails w3) \<le> length (emails w2) + 1 \<and>
         (emails w1 \<noteq> emails w \<and> now (rq_env f1) \<le> sent_at (rq_env f1) \<and>
          one_day_ago (rq_env f2) < now (rq_env f1) \<and>
          (\<forall>rq\<in>set mid. of_owner aid did (rq_session rq) \<longrightarrow>
                           one_day_ago (rq_env rq) < now (rq_env f1)) \<and>
          (\<forall>rq\<in>set mid. of_owner aid did (rq_session rq) \<and>
                           encrypts (rq_env rq) (rq_session rq) (rq_flags rq) (rq_raw rq) \<longrightarrow>
                           alert_fresh aid did (now (rq_env rq) - hour + 1) w1)
          \<longrightarrow> emails w3 = emails w2) \<and>
         (\<forall>lo. alert_fresh aid did lo w2 \<and> one_day_ago (rq_env f2) < lo \<longrightarrow>
               emails w3 = emails w2)"
proof -
  from assms(4,5) have ids1: "alias_id (user (rq_session f1)) = aid"
      "domain_id (user (rq_session f1)) = did"
    and ids2: "alias_id (user (rq_session f2)) = aid" "domain_id (user (rq_session f2)) = did"
    by (simp_all add: of_owner_def)
  from assms(7) have w1: "w1 = snd (onAppend (rq_env f1) (rq_path f1) (rq_flags f1) (rq_date f1)
                                     (rq_raw f1) (rq_session f1) w)"
    by (auto split: prod.splits)
  from assms(8) have w2: "w2 = snd (appends mid w1)" by simp
  from assms(9) have w3: "w3 = snd (onAppend (rq_env f2) (rq_path f2) (rq_flags f2) (rq_date f2)
                                     (rq_raw f2) (rq_session f2) w2)"
    by (auto split: prod.splits)
  note s1 = onAppend_alert_step[OF assms(1), where path = "rq_path f1" and flags = "rq_flags f1"
      and date = "rq_date f1" and raw = "rq_raw f1" and s = "rq_session f1" and w = w,
      folded w1]
  note s2 = onAppend_alert_step[OF assms(3), where path = "rq_path f2" and flags = "rq_flags f2"
      and date = "rq_date f2" and raw = "rq_raw f2" and s = "rq_session f2" and w = w2,
      folded w3]
  have A: "length (emails w1) \<le> length (emails w) + 1" by (rule s1(2))
  have B: "length (emails w3) \<le> length (emails w2) + 1" by (rule s2(2))
  have D: "emails w3 = emails w2" if "alert_fresh aid did lo w2" "one_day_ago (rq_env f2) < lo"
    for lo
    using s2(5)[where lo = lo] that ids2 by simp
  have C: "emails w3 = emails w2"
    if ch: "emails w1 \<noteq> emails w" and clk: "now (rq_env f1) \<le> sent_at (rq_env f1)"
      and l2: "one_day_ago (rq_env f2) < now (rq_env f1)"
      and lm: "\<forall>rq\<in>set mid. of_owner aid did (rq_session rq) \<longrightarrow>
                           one_day_ago (rq_env rq) < now (rq_env f1)"
      and sm: "\<forall>rq\<in>set mid. of_owner aid did (rq_session rq) \<and>
                           encrypts (rq_env rq) (rq_session rq) (rq_flags rq) (rq_raw rq) \<longrightarrow>
                           alert_fresh aid did (now (rq_env rq) - hour + 1) w1"
  proof -
    from s1(3)[where lo = "now (rq_env f1)", OF assms(6) _ clk ch] ids1
    have f1: "alert_fresh aid did (now (rq_env f1)) w1" by simp
    from s1(1) assms(6) have d1: "distinct (map a_id (aliases w1))" by simp
    from appends_keep_owner_docs[OF assms(2) d1 f1 lm sm] w2
    have "owner_docs aid did w2 = owner_docs aid did w1" by simp
    from alert_fresh_cong[OF this] f1 have "alert_fresh aid did (now (rq_env f1)) w2" by simp
    from D[OF this l2] show ?thesis .
  qed
  from A B C D show ?thesis by blast
qed

text \<open>
  Claim C8 as stated fails in two ways. A successful encryption one hour or more after
  an alert unsets the timestamp, so two failures three hours apart, with a success in
  between, send two alert emails. And one day ago is a calendar day ago in the server's
  local time: on a day of 23 hours two failures 23.5 hours apart send two alert emails.
\<close>

theorem C8_second_alert_within_a_day_counterexample:
  "of_owner 1 2 (rq_session (ex_failed_encryption 0)) \<and>
   of_owner 1 2 (rq_session (ex_encrypted 7200000)) \<and>
   of_owner 1 2 (rq_session (ex_failed_encryption 10800000)) \<and>
   of_owner 1 2 (rq_session (ex_failed_encryption_dst 84600000)) \<and>
   isCodeBug (rq_env (ex_failed_encryption 0)) (Error ''bad key'') = False \<and>
   isRetryableError (rq_env (ex_failed_encryption 0)) (Error ''bad key'') = False \<and>
   encryptMessage (rq_env (ex_failed_encryption 0)) ''KEY'' (RawString []) = Inl (Error ''bad key'') \<and>
   encryptMessage (rq_env (ex_failed_encryption 10800000)) ''KEY'' (RawString [])
     = Inl (Error ''bad key'') \<and>
   encryptMessage (rq_env (ex_failed_encryption_dst 84600000)) ''KEY'' (RawString [])
     = Inl (Error ''bad key'') \<and>
   now (rq_env (ex_failed_encryption 10800000)) - now (rq_env (ex_failed_encryption 0))
     < 86400000 \<and>
   now (rq_env (ex_failed_encryption_dst 84600000)) - now (rq_env (ex_failed_encryption 0))
     < 86400000 \<and>
   now (rq_env (ex_failed_encryption_dst 84600000)) -
     one_day_ago (rq_env (ex_failed_encryption_dst 84600000)) = 23 * hour \<and>
   length (emails ex_world) = 0 \<and>
   length (emails (snd (appends
      [ex_failed_encryption 0, ex_encrypted 7200000, ex_failed_encryption 10800000] ex_world))) = 2 \<and>
   length (emails (snd (appends
      [ex_failed_encryption 0, ex_failed_encryption_dst 84600000] ex_world))) = 2"
proof -
  have "length (map e_to (emails (snd (appends
      [ex_failed_encryption 0, ex_encrypted 7200000, ex_failed_encryption 10800000] ex_world)))) = 2"
    unfolding ex_success_between by simp
  moreover have "length (map e_to (emails (snd (appends
      [ex_failed_encryption 0, ex_failed_encryption_dst 84600000] ex_world)))) = 2"
    unfolding ex_short_day by simp
  ultimately show ?thesis
    by (simp add: ex_failed_encryption_def ex_encrypted_def ex_failed_encryption_dst_def
          ex_bad_key_env_def ex_env_def ex_world_def ex_pgp_session_def ex_session_def
          ex_user_def of_owner_def hour_def)
qed

text \<open>The theorem at two failures of the owner three hours apart, with in between a
  successful encryption half an hour after the alert, a draft of the owner and a failure
  of another owner, which alerts that owner: the second failure sends no email.\<close>

theorem C8_second_failure_witness:
  "list_all (\<lambda>rq. wsp (rq_env rq) = None)
     (ex_failed_encryption 0 # ex_between @ [ex_failed_encryption 10800000]) \<and>
   of_owner 1 2 (rq_session (ex_failed_encryption 0)) \<and>
   of_owner 1 2 (rq_session (ex_failed_encryption 10800000)) \<and>
   distinct (map a_id (aliases ex_shared_world)) \<and>
   map (\<lambda>rq. of_owner 1 2 (rq_session rq)) ex_between = [True, True, False] \<and>
   map (\<lambda>rq. encrypts (rq_env rq) (rq_session rq) (rq_flags rq) (rq_raw rq)) ex_between
     = [True, False, False] \<and>
   map (\<lambda>rq. one_day_ago (rq_env rq) < now (rq_env (ex_failed_encryption 0))) ex_between
     = [True, True, True] \<and>
   one_day_ago (rq_env (ex_failed_encryption 10800000)) < now (rq_env (ex_failed_encryption 0)) \<and>
   now (rq_env (ex_failed_encryption 0)) \<le> sent_at (rq_env (ex_failed_encryption 0)) \<and>
   emails ex_shared_world = [] \<and>
   map e_to (emails (snd (appends [ex_failed_encryption 0] ex_shared_world)))
     = [''owner@example.com''] \<and>
   alert_fresh 1 2 (now (rq_env (ex_encrypted 1800000)) - hour + 1)
     (snd (appends [ex_failed_encryption 0] ex_shared_world)) \<and>
   map e_to (emails (snd (appends ex_between
       (snd (appends [ex_failed_encryption 0] ex_shared_world)))))
     = [''owner@example.com'', ''other@example.com''] \<and>
   emails (snd (appends [ex_failed_encryption 10800000]
       (snd (appends ex_between (snd (appends [ex_failed_encryption 0] ex_shared_world)))))) =
     emails (snd (appends ex_between (snd (appends [ex_failed_encryption 0] ex_shared_world))))"
proof -
  let ?f1 = "ex_failed_encryption 0" and ?f2 = "ex_failed_encryption 10800000"
  let ?w1 = "snd (appends [?f1] ex_shared_world)"
  let ?w2 = "snd (appends ex_between ?w1)"
  let ?w3 = "snd (appends [?f2] ?w2)"
  have d1: "wsp (rq_env ?f1) = None" "wsp (rq_env ?f2) = None"
    by (simp_all add: ex_failed_encryption_def ex_bad_key_env_def ex_env_def)
  have dm: "\<forall>rq\<in>set ex_between. wsp (rq_env rq) = None"
    by (simp add: run_defs ex_env_def)
  have o: "of_owner 1 2 (rq_session ?f1)" "of_owner 1 2 (rq_session ?f2)"
    by (simp_all add: of_owner_def ex_failed_encryption_def ex_pgp_session_def ex_session_def
          ex_user_def)
  have om: "map (\<lambda>rq. of_owner 1 2 (rq_session rq)) ex_between = [True, True, False]"
    by (simp add: run_defs of_owner_def ex_pgp_session_def ex_session_def ex_user_def)
  have em: "map (\<lambda>rq. encrypts (rq_env rq) (rq_session rq) (rq_flags rq) (rq_raw rq)) ex_between
     = [True, False, False]"
    by (simp add: run_defs encrypts_def includes_flag_def Draft_def ex_pgp_session_def
          ex_session_def ex_user_def ex_env_def)
  have lm: "map (\<lambda>rq. one_day_ago (rq_env rq) < now (rq_env ?f1)) ex_between
     = [True, True, True]"
    by (simp add: run_defs)
  have l2: "one_day_ago (rq_env ?f2) < now (rq_env ?f1)" "now (rq_env ?f1) \<le> sent_at (rq_env ?f1)"
    by (simp_all add: ex_failed_encryption_def)
  have w: "distinct (map a_id (aliases ex_shared_world))" "emails ex_shared_world = []"
    by (simp_all add: ex_shared_world_def ex_world_def)
  have fr: "alert_fresh 1 2 (now (rq_env (ex_encrypted 1800000)) - hour + 1) ?w1"
    by (rule ex_first_failure(4))
  have ch: "emails ?w1 \<noteq> emails ex_shared_world"
    using ex_first_failure(1) w(2) by auto
  have h1: "\<forall>rq\<in>set ex_between. of_owner 1 2 (rq_session rq) \<longrightarrow>
              one_day_ago (rq_env rq) < now (rq_env ?f1)"
    using lm by (simp add: ex_between_def)
  have h2: "\<forall>rq\<in>set ex_between. of_owner 1 2 (rq_session rq) \<and>
              encrypts (rq_env rq) (rq_session rq) (rq_flags rq) (rq_raw rq) \<longrightarrow>
              alert_fresh 1 2 (now (rq_env rq) - hour + 1) ?w1"
    using em om fr by (simp add: ex_between_def)
  from C8_second_failure_within_a_day_sends_no_alert[where ?f1.0 = ?f1 and ?f2.0 = ?f2
      and mid = ex_between and aid = 1 and did = 2 and w = ex_shared_world
      and ?w1.0 = ?w1 and ?w2.0 = ?w2 and ?w3.0 = ?w3
      and ?cbs1.0 = "fst (appends [?f1] ex_shared_world)" and cbs = "fst (appends ex_between ?w1)"
      and ?cbs2.0 = "fst (appends [?f2] ?w2)", OF d1(1) dm d1(2) o w(1)]
    ch l2 h1 h2
  have "emails ?w3 = emails ?w2" by simp
  with d1 dm o om em lm l2 w fr ex_first_failure(1) ex_between_run(1)
  show ?thesis by (simp add: ex_between_def)
qed




text \<open>
  Claim C10. For every successful append that stores a message in a mailbox whose
  special-use tag is \<^verbatim>\<open>\Drafts\<close>, the stored flags are the caller's flags followed by
  \<^verbatim>\<open>\Draft\<close>, so they contain \<^verbatim>\<open>\Draft\<close> whether or not the caller supplied it.
\<close>

theorem C10_drafts_mailbox_adds_draft_flag:
  assumes "wsp ev = None"
    and "onAppend ev path flags date raw s w = (Success b resp, w')"
    and "messages w' \<noteq> messages w"
    and "\<forall>m\<in>set (mailboxes w). mb_id m = r_mailbox resp \<longrightarrow> specialUse m = Some Drafts"
  shows "\<exists>msg. messages w' = messages w @ [msg] \<and> m_mailbox msg = r_mailbox resp \<and>
           m_uid msg = r_uid resp \<and> m_flags msg = flags @ [Draft] \<and>
           includes_flag (m_flags msg) Draft"
proof -
  from onAppend_stored[OF assms(1-3)] obtain mailbox0 :: mailbox and pre msg where
    fu: "findOneAndUpdate (\<lambda>m. mb_id m = mb_id mailbox0) inc_counters (mailboxes w)
          = (Some pre, mailboxes w')" and
    ms: "messages w' = messages w @ [msg]" "m_mailbox msg = mb_id pre"
      "m_uid msg = uidNext pre"
      "m_flags msg = (if specialUse pre = Some Drafts then flags @ [Draft] else flags)"
      "r_uid resp = uidNext pre" "r_mailbox resp = mb_id pre"
    by blast
  from findOneAndUpdate_Some[OF fu] have "pre \<in> set (mailboxes w)"
    by (auto simp: in_set_conv_nth)
  with assms(4) ms(6) have "specialUse pre = Some Drafts" by simp
  with ms show ?thesis by (simp add: includes_flag_def)
qed

text \<open>The theorem at an append of a message flagged only \<^verbatim>\<open>\Seen\<close> to the drafts
  folder.\<close>

theorem C10_drafts_witness:
  "wsp ex_env = None \<and>
   fst (onAppend ex_env ''Drafts'' [Seen] 0 (RawString []) ex_session ex_world) =
     Success True \<lparr>r_uidValidity = 1, r_uid = 1, r_id = 77, r_mailbox = 11,
                   r_mailboxPath = ''Drafts'', r_size = 42, r_status = ''new''\<rparr> \<and>
   messages (snd (onAppend ex_env ''Drafts'' [Seen] 0 (RawString []) ex_session ex_world))
     \<noteq> messages ex_world \<and>
   map specialUse (filter (\<lambda>m. mb_id m = 11) (mailboxes ex_world)) = [Some Drafts] \<and>
   \<not> includes_flag [Seen] Draft \<and>
   (\<exists>msg. messages (snd (onAppend ex_env ''Drafts'' [Seen] 0 (RawString []) ex_session ex_world))
             = messages ex_world @ [msg] \<and>
          m_mailbox msg = 11 \<and> m_flags msg = [Seen, Draft] \<and> includes_flag (m_flags msg) Draft)"
proof -
  let ?r = "onAppend ex_env ''Drafts'' [Seen] 0 (RawString []) ex_session ex_world"
  let ?resp = "\<lparr>r_uidValidity = 1, r_uid = 1, r_id = 77, r_mailbox = 11,
                   r_mailboxPath = ''Drafts'', r_size = 42, r_status = ''new''\<rparr>"
  have 1: "wsp ex_env = None" by (simp add: ex_env_def)
  have 2: "?r = (Success True ?resp, snd ?r)"
    using ex_append_drafts(1) by (metis prod.collapse)
  have 3: "messages (snd ?r) \<noteq> messages ex_world"
    using ex_append_drafts(2) by (auto simp: ex_world_def)
  have 4: "\<forall>m\<in>set (mailboxes ex_world). mb_id m = r_mailbox ?resp \<longrightarrow> specialUse m = Some Drafts"
    by (simp add: ex_world_def ex_inbox_def ex_drafts_def)
  have 5: "\<not> includes_flag [Seen] Draft"
    by (simp add: includes_flag_def Seen_def Draft_def)
  have 6: "map specialUse (filter (\<lambda>m. mb_id m = 11) (mailboxes ex_world)) = [Some Drafts]"
    by (simp add: ex_world_def ex_inbox_def ex_drafts_def)
  from C10_drafts_mailbox_adds_draft_flag[OF 1 2 3 4] 1 3 5 6 ex_append_drafts(1)
  show ?thesis by auto
qed

end
